theory Spec2Isabelle
  imports Complex_Main
begin

section \<open>Memory model\<close>

text \<open>
  The C code works on heap objects through pointers.  Every array access of the
  source is a checked access here: reading or writing outside the allocated range,
  dereferencing \<open>NULL\<close> and following a pointer to a released train are undefined
  behaviour in C and are values of type \<open>error\<close> in the model.  A \<open>double\<close> is a
  value of an arbitrary type \<open>'a\<close> with \<open>0\<close>, \<open>1\<close>, \<open>+\<close> and \<open>*\<close>; the sums of the
  source are taken in the order in which the loops run.
\<close>

datatype error =
    AccumulatorIndex nat
  | CoreIndex nat
  | RankIndex nat
  | BufferIndex nat
  | FuncIndex nat
  | NullPointer
  | InvalidTrain nat
  | SignedOverflow

definition bindE :: "error + 'x \<Rightarrow> ('x \<Rightarrow> error + 'y) \<Rightarrow> error + 'y" where
  "bindE m f = (case m of Inl e \<Rightarrow> Inl e | Inr x \<Rightarrow> f x)"

text \<open>A counted \<open>for\<close> loop: the body runs once for each index of the list, in order,
  and the first error ends the run.\<close>

fun foldE :: "(nat \<Rightarrow> 's \<Rightarrow> error + 's) \<Rightarrow> nat list \<Rightarrow> 's \<Rightarrow> error + 's" where
  "foldE body [] s = Inr s"
| "foldE body (k # ks) s =
     (case body k s of Inl e \<Rightarrow> Inl e | Inr s' \<Rightarrow> foldE body ks s')"

definition nth_err :: "(nat \<Rightarrow> error) \<Rightarrow> 'x list \<Rightarrow> nat \<Rightarrow> error + 'x" where
  "nth_err e xs i = (if i < length xs then Inr (xs ! i) else Inl (e i))"

definition upd_err :: "(nat \<Rightarrow> error) \<Rightarrow> 'x list \<Rightarrow> nat \<Rightarrow> 'x \<Rightarrow> error + 'x list" where
  "upd_err e xs i v = (if i < length xs then Inr (xs[i := v]) else Inl (e i))"

definition deref :: "'x option \<Rightarrow> error + 'x" where
  "deref p = (case p of None \<Rightarrow> Inl NullPointer | Some v \<Rightarrow> Inr v)"

text \<open>Subtraction of \<open>size_t\<close> values (64 bits): below zero it wraps around.\<close>

definition size_sub :: "nat \<Rightarrow> nat \<Rightarrow> nat" where
  "size_sub a b = (if b \<le> a then a - b else 2 ^ 64 - (b - a))"

section \<open>Data model\<close>

text \<open>\<open>struct Qmarray\<close>: a matrix of univariate functions, stored column by column
  (entry \<open>(i, j)\<close> at offset \<open>j * nrows + i\<close>).\<close>

record 'f Qmarray =
  nrows :: nat
  ncols :: nat
  funcs :: "'f list"

text \<open>\<open>struct FunctionTrain\<close>: \<open>dim\<close> cores (pointers, \<open>NULL\<close> until set) and
  \<open>dim + 1\<close> ranks.\<close>

record 'f FunctionTrain =
  dim :: nat
  ranks :: "nat list"
  cores :: "'f Qmarray option list"

text \<open>The heap of function trains: a train pointer is an index, a released train
  is \<open>None\<close>, and an allocation takes the next index.\<close>

type_synonym 'f heap = "'f FunctionTrain option list"

text \<open>The state of a sweep: the trains, and the two arrays of accumulator matrices
  (each slot a pointer to a block of doubles, or \<open>NULL\<close>).\<close>

record ('a, 'f) sweep_state =
  trains :: "'f heap"
  phi :: "'a list option list"
  psi :: "'a list option list"

text \<open>The functions of the library that \<open>dmrg.c\<close> calls and that are defined in
  other files: they are parameters of the model.  \<open>qmam A M r\<close> multiplies a block by
  a numeric matrix with \<open>r\<close> columns, \<open>mqma M A r\<close> multiplies a numeric matrix with
  \<open>r\<close> rows by a block.  \<open>qmarray_householder_simple\<close> gets the zeroed buffer of the
  numeric factor and returns the orthonormal block with the filled buffer.
  \<open>truncated_svd\<close> returns the rank with \<open>u\<close>, \<open>s\<close> and \<open>vt\<close>.
  \<open>function_train_orthor\<close> returns the new train and what it left of its argument.\<close>

record ('a, 'f) ops =
  generic_function_inner :: "'f \<Rightarrow> 'f \<Rightarrow> 'a"
  qmam :: "'f Qmarray \<Rightarrow> 'a list \<Rightarrow> nat \<Rightarrow> 'f Qmarray"
  mqma :: "'a list \<Rightarrow> 'f Qmarray \<Rightarrow> nat \<Rightarrow> 'f Qmarray"
  qmarray_householder_simple :: "string \<Rightarrow> 'f Qmarray \<Rightarrow> 'a list \<Rightarrow> 'f Qmarray \<times> 'a list"
  cblas_dgemm :: "nat \<Rightarrow> nat \<Rightarrow> nat \<Rightarrow> 'a \<Rightarrow> 'a list \<Rightarrow> nat \<Rightarrow> 'a list \<Rightarrow> nat
                    \<Rightarrow> 'a \<Rightarrow> 'a list \<Rightarrow> nat \<Rightarrow> 'a list"
  truncated_svd :: "nat \<Rightarrow> nat \<Rightarrow> nat \<Rightarrow> 'a list \<Rightarrow> 'a \<Rightarrow> nat \<times> 'a list \<times> 'a list \<times> 'a list"
  function_train_orthor :: "'f FunctionTrain \<Rightarrow> 'f FunctionTrain \<times> 'f FunctionTrain"

definition train_at :: "'f heap \<Rightarrow> nat \<Rightarrow> error + 'f FunctionTrain" where
  "train_at h p =
     (if p < length h then (case h ! p of None \<Rightarrow> Inl (InvalidTrain p) | Some t \<Rightarrow> Inr t)
      else Inl (InvalidTrain p))"

text \<open>\<open>p->cores[k]\<close>, dereferenced.\<close>

definition core_at :: "'f heap \<Rightarrow> nat \<Rightarrow> nat \<Rightarrow> error + 'f Qmarray" where
  "core_at h p k =
     bindE (train_at h p) (\<lambda>t. bindE (nth_err CoreIndex (cores t) k) deref)"

text \<open>\<open>p->ranks[k] = r\<close> and \<open>p->cores[k] = q\<close>.\<close>

definition set_rank :: "'f heap \<Rightarrow> nat \<Rightarrow> nat \<Rightarrow> nat \<Rightarrow> error + 'f heap" where
  "set_rank h p k r =
     bindE (train_at h p) (\<lambda>t.
     bindE (upd_err RankIndex (ranks t) k r) (\<lambda>rs.
     Inr (h[p := Some (t\<lparr>ranks := rs\<rparr>)])))"

definition set_core :: "'f heap \<Rightarrow> nat \<Rightarrow> nat \<Rightarrow> 'f Qmarray \<Rightarrow> error + 'f heap" where
  "set_core h p k q =
     bindE (train_at h p) (\<lambda>t.
     bindE (upd_err CoreIndex (cores t) k (Some q)) (\<lambda>cs.
     Inr (h[p := Some (t\<lparr>cores := cs\<rparr>)])))"

text \<open>\<open>function_train_alloc\<close>: a new train with zeroed ranks and no cores, at a
  fresh address.\<close>

definition function_train_alloc :: "nat \<Rightarrow> 'f heap \<Rightarrow> nat \<times> 'f heap" where
  "function_train_alloc d h =
     (length h, h @ [Some \<lparr>dim = d, ranks = replicate (d + 1) 0, cores = replicate d None\<rparr>])"

text \<open>\<open>function_train_free\<close>: nothing for \<open>NULL\<close>, releases a live train.\<close>

definition function_train_free :: "nat option \<Rightarrow> 'f heap \<Rightarrow> error + 'f heap" where
  "function_train_free p h =
     (case p of None \<Rightarrow> Inr h
      | Some q \<Rightarrow> bindE (train_at h q) (\<lambda>_. Inr (h[q := None])))"

text \<open>\<open>function_train_copy\<close>: a deep copy at a fresh address.\<close>

definition function_train_copy :: "nat option \<Rightarrow> 'f heap \<Rightarrow> error + nat option \<times> 'f heap" where
  "function_train_copy p h =
     (case p of None \<Rightarrow> Inr (None, h)
      | Some q \<Rightarrow> bindE (train_at h q) (\<lambda>t. Inr (Some (length h), h @ [Some t])))"

section \<open>The accumulator updates\<close>

text \<open>One pass of the innermost statement of \<open>dmrg_update_right\<close>:
  \<open>val[ii*nrows+jj] += psikp[ll*left->ncols+kk] * inner(left(jj,kk), right(ii,ll))\<close>.\<close>

definition update_right_term ::
  "('a::{zero,plus,times}, 'f) ops \<Rightarrow> 'a list \<Rightarrow> 'f Qmarray \<Rightarrow> 'f Qmarray
     \<Rightarrow> nat \<Rightarrow> nat \<Rightarrow> nat \<Rightarrow> nat \<Rightarrow> 'a list \<Rightarrow> error + 'a list" where
  "update_right_term ops psikp left right ii jj kk ll val =
     bindE (nth_err BufferIndex val (ii * nrows left + jj)) (\<lambda>v.
     bindE (nth_err BufferIndex psikp (ll * ncols left + kk)) (\<lambda>p.
     bindE (nth_err FuncIndex (funcs left) (kk * nrows left + jj)) (\<lambda>f.
     bindE (nth_err FuncIndex (funcs right) (ll * nrows right + ii)) (\<lambda>g.
     upd_err BufferIndex val (ii * nrows left + jj)
       (v + p * generic_function_inner ops f g)))))"

definition dmrg_update_right ::
  "('a::{zero,plus,times}, 'f) ops \<Rightarrow> 'a list \<Rightarrow> 'f Qmarray \<Rightarrow> 'f Qmarray \<Rightarrow> error + 'a list" where
  "dmrg_update_right ops psikp left right =
     foldE (\<lambda>ii. foldE (\<lambda>jj. foldE (\<lambda>kk. foldE (\<lambda>ll.
         update_right_term ops psikp left right ii jj kk ll)
         [0..<ncols right]) [0..<ncols left]) [0..<nrows left]) [0..<nrows right]
       (replicate (nrows left * nrows right) 0)"

text \<open>One step of the loop of \<open>dmrg_update_all_right\<close>:
  \<open>free(mats[ii]); mats[ii] = NULL; mats[ii] = dmrg_update_right(mats[ii+1], a->cores[ii+2],
  b->cores[ii+2])\<close>.\<close>

definition update_all_right_step ::
  "('a::{zero,plus,times}, 'f) ops \<Rightarrow> 'f heap \<Rightarrow> nat \<Rightarrow> nat \<Rightarrow> nat
     \<Rightarrow> 'a list option list \<Rightarrow> error + 'a list option list" where
  "update_all_right_step ops h a b ii mats =
     bindE (nth_err AccumulatorIndex mats ii) (\<lambda>_.
     bindE (upd_err AccumulatorIndex mats ii None) (\<lambda>mats1.
     bindE (bindE (nth_err AccumulatorIndex mats1 (ii + 1)) deref) (\<lambda>psikp.
     bindE (core_at h a (ii + 2)) (\<lambda>left.
     bindE (core_at h b (ii + 2)) (\<lambda>right.
     bindE (dmrg_update_right ops psikp left right) (\<lambda>val.
     upd_err AccumulatorIndex mats1 ii (Some val)))))))"

text \<open>\<open>dmrg_update_all_right\<close>.  The counter of the loop is a \<open>size_t\<close> that starts
  at \<open>a->dim-3\<close> and runs down while it is positive; slot \<open>0\<close> is done after the loop.\<close>

definition dmrg_update_all_right ::
  "('a::{zero,one,plus,times}, 'f) ops \<Rightarrow> 'f heap \<Rightarrow> nat \<Rightarrow> nat
     \<Rightarrow> 'a list option list \<Rightarrow> error + 'a list option list" where
  "dmrg_update_all_right ops h a b mats =
     bindE (train_at h a) (\<lambda>ta.
     bindE (nth_err AccumulatorIndex mats (size_sub (dim ta) 2)) (\<lambda>_.
     bindE (upd_err AccumulatorIndex mats (size_sub (dim ta) 2) (Some [1])) (\<lambda>mats1.
     bindE (foldE (update_all_right_step ops h a b)
              (rev [1..<Suc (size_sub (dim ta) 3)]) mats1) (\<lambda>mats2.
     update_all_right_step ops h a b 0 mats2))))"

text \<open>The innermost statement of \<open>dmrg_update_left\<close>:
  \<open>val[ii*nrows+jj] += phik[ll*left->nrows+kk] * inner(left(kk,jj), right(ll,ii))\<close>,
  where \<open>nrows\<close> is \<open>left->ncols\<close>.\<close>

definition update_left_term ::
  "('a::{zero,plus,times}, 'f) ops \<Rightarrow> 'a list \<Rightarrow> 'f Qmarray \<Rightarrow> 'f Qmarray
     \<Rightarrow> nat \<Rightarrow> nat \<Rightarrow> nat \<Rightarrow> nat \<Rightarrow> 'a list \<Rightarrow> error + 'a list" where
  "update_left_term ops phik left right ii jj kk ll val =
     bindE (nth_err BufferIndex val (ii * ncols left + jj)) (\<lambda>v.
     bindE (nth_err BufferIndex phik (ll * nrows left + kk)) (\<lambda>p.
     bindE (nth_err FuncIndex (funcs left) (jj * nrows left + kk)) (\<lambda>f.
     bindE (nth_err FuncIndex (funcs right) (ii * nrows right + ll)) (\<lambda>g.
     upd_err BufferIndex val (ii * ncols left + jj)
       (v + p * generic_function_inner ops f g)))))"

definition dmrg_update_left ::
  "('a::{zero,plus,times}, 'f) ops \<Rightarrow> 'a list \<Rightarrow> 'f Qmarray \<Rightarrow> 'f Qmarray \<Rightarrow> error + 'a list" where
  "dmrg_update_left ops phik left right =
     foldE (\<lambda>ii. foldE (\<lambda>jj. foldE (\<lambda>kk. foldE (\<lambda>ll.
         update_left_term ops phik left right ii jj kk ll)
         [0..<nrows right]) [0..<nrows left]) [0..<ncols left]) [0..<ncols right]
       (replicate (ncols left * ncols right) 0)"

section \<open>The sweeps\<close>

text \<open>\<open>buf[i] = buf[i] * s[j]\<close>, the statement of both scaling loops.\<close>

definition scale_entry :: "'a::times list \<Rightarrow> nat \<Rightarrow> nat \<Rightarrow> 'a list \<Rightarrow> error + 'a list" where
  "scale_entry sv i j buf =
     bindE (nth_err BufferIndex buf i) (\<lambda>x.
     bindE (nth_err BufferIndex sv j) (\<lambda>y.
     upd_err BufferIndex buf i (x * y)))"

text \<open>The loop of the last step of the left-right sweep:
  \<open>for kk < dimtemp: for jj < rank: vt[kk*rank+jj] = vt[kk*rank+jj]*s[jj]\<close>.\<close>

definition scale_vt :: "nat \<Rightarrow> nat \<Rightarrow> 'a::times list \<Rightarrow> 'a list \<Rightarrow> error + 'a list" where
  "scale_vt dimtemp rank sv vt =
     foldE (\<lambda>kk. foldE (\<lambda>jj. scale_entry sv (kk * rank + jj) jj) [0..<rank]) [0..<dimtemp] vt"

text \<open>The loop of the last step of the right-left sweep:
  \<open>for jj < rank: for kk < dimtemp: u[jj*dimtemp+kk] = u[jj*dimtemp+kk]*s[jj]\<close>.\<close>

definition scale_u :: "nat \<Rightarrow> nat \<Rightarrow> 'a::times list \<Rightarrow> 'a list \<Rightarrow> error + 'a list" where
  "scale_u dimtemp rank sv u =
     foldE (\<lambda>jj. foldE (\<lambda>kk. scale_entry sv (jj * dimtemp + kk) jj) [0..<dimtemp]) [0..<rank] u"

text \<open>The block of statements that both sweeps run at every step, with \<open>Phi = phi[ii]\<close>,
  \<open>Psi = psi[ii]\<close>, \<open>bcore = b->cores[ii]\<close> and \<open>bcore1 = b->cores[ii+1]\<close>:
  \<open>newcorer = qmam(b->cores[ii+1], psi[ii], rsize)\<close>, its LQ factorisation into \<open>templ\<close> and
  the buffer \<open>L\<close> of \<open>dimtemp * dimtemp\<close> doubles, \<open>newcorel = mqma(phi[ii], b->cores[ii], lsize)\<close>,
  its QR factorisation into \<open>tempr\<close> and \<open>R\<close>, the product \<open>RL\<close> by \<open>cblas_dgemm\<close>, and
  \<open>truncated_svd\<close> of \<open>RL\<close> at \<open>epsilon\<close>.\<close>

record ('a, 'f) split =
  split_templ :: "'f Qmarray"
  split_tempr :: "'f Qmarray"
  split_rank :: nat
  split_u :: "'a list"
  split_s :: "'a list"
  split_vt :: "'a list"

definition two_core_split ::
  "('a::{zero,one}, 'f) ops \<Rightarrow> 'a \<Rightarrow> 'a list \<Rightarrow> 'a list \<Rightarrow> 'f Qmarray \<Rightarrow> 'f Qmarray
     \<Rightarrow> nat \<Rightarrow> nat \<Rightarrow> ('a, 'f) split" where
  "two_core_split ops epsilon Phi Psi bcore bcore1 lsize rsize =
     (let dimtemp = ncols bcore;
          newcorer = qmam ops bcore1 Psi rsize;
          tl = qmarray_householder_simple ops ''LQ'' newcorer (replicate (dimtemp * dimtemp) 0);
          newcorel = mqma ops Phi bcore lsize;
          tr = qmarray_householder_simple ops ''QR'' newcorel (replicate (dimtemp * dimtemp) 0);
          RL = cblas_dgemm ops dimtemp dimtemp dimtemp 1 (snd tr) dimtemp (snd tl) dimtemp 0
                 (replicate (dimtemp * dimtemp) 0) dimtemp;
          svd = truncated_svd ops dimtemp dimtemp dimtemp RL epsilon
      in \<lparr>split_templ = fst tl, split_tempr = fst tr, split_rank = fst svd,
          split_u = fst (snd svd), split_s = fst (snd (snd svd)),
          split_vt = snd (snd (snd svd))\<rparr>)"

text \<open>The update of the left accumulator at the end of a step of the left-right sweep:
  \<open>free(phi[ii+1]); phi[ii+1] = NULL;
  phi[ii+1] = dmrg_update_left(phi[ii], na->cores[ii], b->cores[ii])\<close>.\<close>

definition lr_update_phi ::
  "('a::{zero,plus,times}, 'f) ops \<Rightarrow> 'f heap \<Rightarrow> nat \<Rightarrow> nat \<Rightarrow> nat
     \<Rightarrow> 'a list option list \<Rightarrow> error + 'a list option list" where
  "lr_update_phi ops h na b ii ph =
     bindE (nth_err AccumulatorIndex ph (ii + 1)) (\<lambda>_.
     bindE (upd_err AccumulatorIndex ph (ii + 1) None) (\<lambda>ph1.
     bindE (bindE (nth_err AccumulatorIndex ph1 ii) deref) (\<lambda>phik.
     bindE (core_at h na ii) (\<lambda>left.
     bindE (core_at h b ii) (\<lambda>right.
     bindE (dmrg_update_left ops phik left right) (\<lambda>val.
     upd_err AccumulatorIndex ph1 (ii + 1) (Some val)))))))"

text \<open>One pass of the body of the loop of \<open>dmrg_sweep_lr\<close>, at counter \<open>ii\<close>.  The
  state of the loop is the memory and \<open>lsize\<close>.  No statement of the body writes the
  \<open>dim\<close> field of a train, so \<open>a->dim\<close> is read once.\<close>

definition lr_step ::
  "('a::{zero,one,plus,times}, 'f) ops \<Rightarrow> nat \<Rightarrow> nat \<Rightarrow> nat \<Rightarrow> 'a \<Rightarrow> nat
     \<Rightarrow> ('a, 'f) sweep_state \<times> nat \<Rightarrow> error + ('a, 'f) sweep_state \<times> nat" where
  "lr_step ops a b na epsilon ii sl =
     (let s = fst sl; lsize = snd sl in
      bindE (train_at (trains s) a) (\<lambda>ta.
      bindE (core_at (trains s) b ii) (\<lambda>bcore.
      bindE (if ii = size_sub (dim ta) 2 then Inr 1
             else bindE (core_at (trains s) a (ii + 1)) (\<lambda>c. Inr (ncols c))) (\<lambda>rsize.
      bindE (core_at (trains s) b (ii + 1)) (\<lambda>bcore1.
      bindE (bindE (nth_err AccumulatorIndex (psi s) ii) deref) (\<lambda>Psi.
      bindE (bindE (nth_err AccumulatorIndex (phi s) ii) deref) (\<lambda>Phi.
      let sp = two_core_split ops epsilon Phi Psi bcore bcore1 lsize rsize in
      bindE (set_rank (trains s) na (ii + 1) (split_rank sp)) (\<lambda>h1.
      bindE (set_core h1 na ii (qmam ops (split_tempr sp) (split_u sp) (split_rank sp))) (\<lambda>h2.
      bindE (if ii + 1 = size_sub (dim ta) 1
             then bindE (scale_vt (ncols bcore) (split_rank sp) (split_s sp) (split_vt sp)) (\<lambda>vt'.
                  set_core h2 na (ii + 1) (mqma ops vt' (split_templ sp) (split_rank sp)))
             else Inr h2) (\<lambda>h3.
      bindE (if ii < size_sub (dim ta) 2 then lr_update_phi ops h3 na b ii (phi s)
             else Inr (phi s)) (\<lambda>ph.
      bindE (core_at h3 a ii) (\<lambda>acore.
      Inr (s\<lparr>trains := h3, phi := ph\<rparr>, ncols acore)))))))))))))"

text \<open>\<open>dmrg_sweep_lr\<close>: the new train is allocated, its boundary ranks are set,
  \<open>phi[0]\<close> is initialised when it is \<open>NULL\<close>, and the loop runs for
  \<open>ii = 0, \<dots>, a->dim-2\<close> (the bound \<open>a->dim-1\<close> is a \<open>size_t\<close>).\<close>

definition dmrg_sweep_lr ::
  "('a::{zero,one,plus,times}, 'f) ops \<Rightarrow> nat \<Rightarrow> nat \<Rightarrow> 'a
     \<Rightarrow> ('a, 'f) sweep_state \<Rightarrow> error + nat \<times> ('a, 'f) sweep_state" where
  "dmrg_sweep_lr ops a b epsilon s =
     bindE (train_at (trains s) a) (\<lambda>ta.
     let al = function_train_alloc (dim ta) (trains s); na = fst al; h0 = snd al in
     bindE (set_rank h0 na 0 1) (\<lambda>h1.
     bindE (train_at h1 na) (\<lambda>tn.
     bindE (set_rank h1 na (dim tn) 1) (\<lambda>h2.
     bindE (nth_err AccumulatorIndex (phi s) 0) (\<lambda>p0.
     let ph = (if p0 = None then (phi s)[0 := Some [1]] else phi s) in
     bindE (foldE (lr_step ops a b na epsilon) [0..<size_sub (dim ta) 1]
              (s\<lparr>trains := h2, phi := ph\<rparr>, 1)) (\<lambda>sl.
     Inr (na, fst sl)))))))"

text \<open>The update of the right accumulator at the end of a step of the right-left
  sweep: \<open>free(psi[ii-1]); psi[ii-1] = NULL;
  psi[ii-1] = dmrg_update_right(psi[ii], b->cores[ii+1], na->cores[ii+1])\<close>.\<close>

definition rl_update_psi ::
  "('a::{zero,plus,times}, 'f) ops \<Rightarrow> 'f heap \<Rightarrow> nat \<Rightarrow> nat \<Rightarrow> nat
     \<Rightarrow> 'a list option list \<Rightarrow> error + 'a list option list" where
  "rl_update_psi ops h na b ii ps =
     bindE (nth_err AccumulatorIndex ps (ii - 1)) (\<lambda>_.
     bindE (upd_err AccumulatorIndex ps (ii - 1) None) (\<lambda>ps1.
     bindE (bindE (nth_err AccumulatorIndex ps1 ii) deref) (\<lambda>psik.
     bindE (core_at h b (ii + 1)) (\<lambda>left.
     bindE (core_at h na (ii + 1)) (\<lambda>right.
     bindE (dmrg_update_right ops psik left right) (\<lambda>val.
     upd_err AccumulatorIndex ps1 (ii - 1) (Some val)))))))"

text \<open>The counter of the right-left loop is an \<open>int\<close> (32 bits), initialised from the
  \<open>size_t\<close> value \<open>a->dim-2\<close>: the conversion keeps the low 32 bits, read as two's
  complement.  \<open>ii+1\<close> overflows at the largest \<open>int\<close>.\<close>

definition int_of_size_t :: "nat \<Rightarrow> int" where
  "int_of_size_t n = (let m = int n mod 2 ^ 32 in if m < 2 ^ 31 then m else m - 2 ^ 32)"

text \<open>One pass of the body of the loop of \<open>dmrg_sweep_rl\<close>, at counter \<open>ii \<ge> 0\<close>.  The
  state of the loop is the memory and \<open>rsize\<close>.\<close>

definition rl_step ::
  "('a::{zero,one,plus,times}, 'f) ops \<Rightarrow> nat \<Rightarrow> nat \<Rightarrow> nat \<Rightarrow> 'a \<Rightarrow> nat
     \<Rightarrow> ('a, 'f) sweep_state \<times> nat \<Rightarrow> error + ('a, 'f) sweep_state \<times> nat" where
  "rl_step ops a b na epsilon ii sr =
     (let s = fst sr; rsize = snd sr in
      bindE (core_at (trains s) b ii) (\<lambda>bcore.
      bindE (if ii = 0 then Inr 1
             else bindE (core_at (trains s) a (ii - 1)) (\<lambda>c. Inr (ncols c))) (\<lambda>lsize.
      bindE (if int ii + 1 \<le> 2 ^ 31 - 1 then Inr (ii + 1) else Inl SignedOverflow) (\<lambda>ii1.
      bindE (core_at (trains s) b ii1) (\<lambda>bcore1.
      bindE (bindE (nth_err AccumulatorIndex (psi s) ii) deref) (\<lambda>Psi.
      bindE (bindE (nth_err AccumulatorIndex (phi s) ii) deref) (\<lambda>Phi.
      let sp = two_core_split ops epsilon Phi Psi bcore bcore1 lsize rsize in
      bindE (set_rank (trains s) na ii1 (split_rank sp)) (\<lambda>h1.
      bindE (set_core h1 na ii1 (mqma ops (split_vt sp) (split_templ sp) (split_rank sp))) (\<lambda>h2.
      bindE (if ii = 0
             then bindE (scale_u (ncols bcore) (split_rank sp) (split_s sp) (split_u sp)) (\<lambda>u'.
                  set_core h2 na ii (qmam ops (split_tempr sp) u' (split_rank sp)))
             else Inr h2) (\<lambda>h3.
      bindE (if ii > 0 then rl_update_psi ops h3 na b ii (psi s)
             else Inr (psi s)) (\<lambda>ps.
      bindE (core_at h3 a ii1) (\<lambda>acore.
      Inr (s\<lparr>trains := h3, psi := ps\<rparr>, nrows acore)))))))))))))"

text \<open>\<open>dmrg_sweep_rl\<close>: as the left-right sweep, with \<open>psi[a->dim-2]\<close> initialised
  when it is \<open>NULL\<close> and the loop running for \<open>ii = (int)(a->dim-2)\<close> down to \<open>0\<close>.\<close>

definition dmrg_sweep_rl ::
  "('a::{zero,one,plus,times}, 'f) ops \<Rightarrow> nat \<Rightarrow> nat \<Rightarrow> 'a
     \<Rightarrow> ('a, 'f) sweep_state \<Rightarrow> error + nat \<times> ('a, 'f) sweep_state" where
  "dmrg_sweep_rl ops a b epsilon s =
     bindE (train_at (trains s) a) (\<lambda>ta.
     let al = function_train_alloc (dim ta) (trains s); na = fst al; h0 = snd al in
     bindE (set_rank h0 na 0 1) (\<lambda>h1.
     bindE (train_at h1 na) (\<lambda>tn.
     bindE (set_rank h1 na (dim tn) 1) (\<lambda>h2.
     bindE (nth_err AccumulatorIndex (psi s) (size_sub (dim ta) 2)) (\<lambda>p0.
     let ps = (if p0 = None then (psi s)[size_sub (dim ta) 2 := Some [1]] else psi s) in
     bindE (foldE (rl_step ops a b na epsilon)
              (rev [0..<nat (int_of_size_t (size_sub (dim ta) 2) + 1)])
              (s\<lparr>trains := h2, psi := ps\<rparr>, 1)) (\<lambda>sr.
     Inr (na, fst sr)))))))"

text \<open>\<open>dmrg_sweep_lrl\<close>: a left-right sweep, a right-left sweep on its output, and
  the intermediate train released.\<close>

definition dmrg_sweep_lrl ::
  "('a::{zero,one,plus,times}, 'f) ops \<Rightarrow> nat \<Rightarrow> nat \<Rightarrow> 'a
     \<Rightarrow> ('a, 'f) sweep_state \<Rightarrow> error + nat \<times> ('a, 'f) sweep_state" where
  "dmrg_sweep_lrl ops a b epsilon s =
     bindE (dmrg_sweep_lr ops a b epsilon s) (\<lambda>r1.
     bindE (dmrg_sweep_rl ops (fst r1) b epsilon (snd r1)) (\<lambda>r2.
     bindE (function_train_free (Some (fst r1)) (trains (snd r2))) (\<lambda>h.
     Inr (fst r2, (snd r2)\<lparr>trains := h\<rparr>))))"

section \<open>The approximation driver\<close>

text \<open>What \<open>dmrg_approx\<close> prints, one event for each \<open>printf\<close>.\<close>

datatype event =
    VerboseWorks
  | NumberOfSweeps nat
  | StartingRanks "nat list"
  | OnIteration nat nat
  | DiffIsSmall

text \<open>The variables of the loop of \<open>dmrg_approx\<close>: the pointers \<open>ao\<close> and \<open>na\<close>, the
  memory, and the output so far.\<close>

record ('a, 'f) approx_state =
  ptr_ao :: "nat option"
  ptr_na :: "nat option"
  mem :: "('a, 'f) sweep_state"
  printed :: "event list"

text \<open>\<open>malloc((dim-1)*sizeof(double))\<close>: the number of 8-byte slots of the block; the
  size is computed in \<open>size_t\<close>.\<close>

definition malloc_slots :: "nat \<Rightarrow> nat" where
  "malloc_slots n = nat ((int n * 8 mod 2 ^ 64) div 8)"

text \<open>\<open>phi[ii] = NULL; psi[ii] = NULL\<close>, the body of the first loop, and
  \<open>free(phi[ii]); phi[ii] = NULL; free(psi[ii]); psi[ii] = NULL\<close>, the body of the last.\<close>

definition clear_slots ::
  "nat \<Rightarrow> 'a list option list \<times> 'a list option list
     \<Rightarrow> error + 'a list option list \<times> 'a list option list" where
  "clear_slots ii pp =
     bindE (upd_err AccumulatorIndex (fst pp) ii None) (\<lambda>ph.
     bindE (upd_err AccumulatorIndex (snd pp) ii None) (\<lambda>ps.
     Inr (ph, ps)))"

text \<open>The start of \<open>dmrg_approx\<close>, up to the loop: the orthogonalised copy \<open>ao\<close> of
  the guess, the two arrays of \<open>dim-1\<close> accumulators set to \<open>NULL\<close>, the right
  accumulators of the target \<open>b\<close> against \<open>ao\<close>, and the output of \<open>verbose == 2\<close>.\<close>

definition dmrg_approx_init ::
  "('a::{zero,one,plus,times}, 'f) ops \<Rightarrow> nat \<Rightarrow> nat \<Rightarrow> int \<Rightarrow> nat \<Rightarrow> 'f heap \<Rightarrow> event list
     \<Rightarrow> error + ('a, 'f) approx_state" where
  "dmrg_approx_init ops a b verbose max_sweeps h ev =
     bindE (train_at h a) (\<lambda>ta.
     let d = dim ta;
         oo = function_train_orthor ops ta;
         h1 = h[a := Some (snd oo)] @ [Some (fst oo)];
         aop = length h;
         slots = malloc_slots (size_sub d 1) in
     bindE (foldE clear_slots [0..<size_sub d 1]
              (replicate slots None, replicate slots None)) (\<lambda>pp.
     bindE (dmrg_update_all_right ops h1 b aop (snd pp)) (\<lambda>ps.
     bindE (if verbose = 2
            then bindE (train_at h1 aop) (\<lambda>tao.
                 if d + 1 \<le> length (ranks tao)
                 then Inr (ev @ [VerboseWorks, NumberOfSweeps max_sweeps,
                                 StartingRanks (take (d + 1) (ranks tao))])
                 else Inl (RankIndex (length (ranks tao))))
            else Inr ev) (\<lambda>ev1.
     Inr \<lparr>ptr_ao = Some aop, ptr_na = None,
          mem = \<lparr>trains = h1, phi = fst pp, psi = ps\<rparr>, printed = ev1\<rparr>))))"

text \<open>One pass of the loop of \<open>dmrg_approx\<close>, at counter \<open>ii\<close>.  \<open>diff\<close> is the constant
  \<open>10\<close>; the test \<open>diff < delta\<close> selects a \<open>printf\<close> only.\<close>

definition dmrg_approx_step ::
  "('a::{zero,times,numeral,ord}, 'f) ops \<Rightarrow> nat \<Rightarrow> 'a \<Rightarrow> nat \<Rightarrow> int \<Rightarrow> 'a \<Rightarrow> nat
     \<Rightarrow> ('a, 'f) approx_state \<Rightarrow> error + ('a, 'f) approx_state" where
  "dmrg_approx_step ops b delta max_sweeps verbose epsilon ii x =
     (let ev1 = (if verbose > 0 then printed x @ [OnIteration ii (size_sub max_sweeps 1)]
                 else printed x) in
      bindE (function_train_free (ptr_na x) (trains (mem x))) (\<lambda>h1.
      bindE (deref (ptr_ao x)) (\<lambda>aop.
      bindE (dmrg_sweep_lrl ops aop b epsilon ((mem x)\<lparr>trains := h1\<rparr>)) (\<lambda>r.
      let diff = 10 in
      bindE (function_train_free (ptr_ao x) (trains (snd r))) (\<lambda>h3.
      let ev2 = (if diff < delta then ev1 @ [DiffIsSmall] else ev1) in
      bindE (function_train_copy (Some (fst r)) h3) (\<lambda>c.
      Inr \<lparr>ptr_ao = fst c, ptr_na = Some (fst r),
           mem = (snd r)\<lparr>trains := snd c\<rparr>, printed = ev2\<rparr>))))))"

text \<open>The loop of \<open>dmrg_approx\<close>: \<open>for (ii = 0; ii < max_sweeps; ii++)\<close>.\<close>

definition dmrg_approx_loop ::
  "('a::{zero,times,numeral,ord}, 'f) ops \<Rightarrow> nat \<Rightarrow> 'a \<Rightarrow> nat \<Rightarrow> int \<Rightarrow> 'a
     \<Rightarrow> ('a, 'f) approx_state \<Rightarrow> error + ('a, 'f) approx_state" where
  "dmrg_approx_loop ops b delta max_sweeps verbose epsilon x =
     foldE (dmrg_approx_step ops b delta max_sweeps verbose epsilon) [0..<max_sweeps] x"

text \<open>The end of \<open>dmrg_approx\<close>: \<open>ao\<close> and the accumulators are released and \<open>na\<close> is
  returned, here with the trains and the output.\<close>

definition dmrg_approx_finish ::
  "nat \<Rightarrow> ('a, 'f) approx_state \<Rightarrow> error + nat option \<times> 'f heap \<times> event list" where
  "dmrg_approx_finish d x =
     bindE (function_train_free (ptr_ao x) (trains (mem x))) (\<lambda>h.
     bindE (foldE clear_slots [0..<size_sub d 1] (phi (mem x), psi (mem x))) (\<lambda>_.
     Inr (ptr_na x, h, printed x)))"

text \<open>\<open>dmrg_approx\<close>.\<close>

definition dmrg_approx ::
  "('a::{zero,times,numeral,ord}, 'f) ops \<Rightarrow> nat \<Rightarrow> nat \<Rightarrow> 'a \<Rightarrow> nat \<Rightarrow> int \<Rightarrow> 'a
     \<Rightarrow> 'f heap \<Rightarrow> event list \<Rightarrow> error + nat option \<times> 'f heap \<times> event list" where
  "dmrg_approx ops a b delta max_sweeps verbose epsilon h ev =
     bindE (train_at h a) (\<lambda>ta.
     bindE (dmrg_approx_init ops a b verbose max_sweeps h ev) (\<lambda>x0.
     bindE (dmrg_approx_loop ops b delta max_sweeps verbose epsilon x0) (\<lambda>x1.
     dmrg_approx_finish (dim ta) x1)))"

section \<open>Definitions for the properties\<close>

text \<open>The overlap contraction as the specification states it: the entry for row
  \<open>rowL\<close> of \<open>L\<close> and row \<open>rowR\<close> of \<open>R\<close> is the sum over the index pairs \<open>(a, b)\<close> of
  \<open>P[b,a] * inner(L(rowL,a), R(rowR,b))\<close>, with \<open>P[b,a]\<close> at offset \<open>b * ncols L + a\<close>.\<close>

definition contract_entry ::
  "('a::{monoid_add,times}, 'f) ops \<Rightarrow> 'a list \<Rightarrow> 'f Qmarray \<Rightarrow> 'f Qmarray \<Rightarrow> nat \<Rightarrow> nat \<Rightarrow> 'a" where
  "contract_entry ops P L R rowL rowR =
     (\<Sum>a\<leftarrow>[0..<ncols L]. \<Sum>b\<leftarrow>[0..<ncols R].
        P ! (b * ncols L + a) *
        generic_function_inner ops (funcs L ! (a * nrows L + rowL)) (funcs R ! (b * nrows R + rowR)))"

text \<open>One entry for each pair of a row of \<open>L\<close> and a row of \<open>R\<close>, the entry of
  \<open>(rowL, rowR)\<close> at offset \<open>rowR * nrows L + rowL\<close>.\<close>

definition contract ::
  "('a::{monoid_add,times}, 'f) ops \<Rightarrow> 'a list \<Rightarrow> 'f Qmarray \<Rightarrow> 'f Qmarray \<Rightarrow> 'a list" where
  "contract ops P L R =
     map (\<lambda>idx. contract_entry ops P L R (idx mod nrows L) (idx div nrows L))
       [0..<nrows L * nrows R]"






text \<open>Writing a rank or a core of the train at \<open>p\<close> changes that train only.\<close>

definition same_but :: "nat \<Rightarrow> 'f heap \<Rightarrow> 'f heap \<Rightarrow> bool" where
  "same_but p h h' = (length h' = length h \<and> (\<forall>q. q \<noteq> p \<longrightarrow> h' ! q = h ! q))"


text \<open>No write of a sweep changes the dimension of a train.\<close>

definition dims_kept :: "'f heap \<Rightarrow> 'f heap \<Rightarrow> bool" where
  "dims_kept h h' =
     (\<forall>q t. train_at h q = Inr t \<longrightarrow> (\<exists>t'. train_at h' q = Inr t' \<and> dim t' = dim t))"

text \<open>A factorisation fills the buffer it is given: the block of doubles that the
  caller allocated keeps its size.\<close>

definition fills_buffer :: "('a, 'f) ops \<Rightarrow> bool" where
  "fills_buffer ops =
     (\<forall>dir A buf. length (snd (qmarray_householder_simple ops dir A buf)) = length buf)"

fun dot :: "real list \<Rightarrow> real list \<Rightarrow> real" where
  "dot (x # xs) (y # ys) = x * y + dot xs ys"
| "dot _ _ = 0"

fun vadd :: "real list \<Rightarrow> real list \<Rightarrow> real list" where
  "vadd (x # xs) (y # ys) = (x + y) # vadd xs ys"
| "vadd xs [] = xs"
| "vadd [] ys = ys"

definition lincomb :: "(real \<times> real list) list \<Rightarrow> real list" where
  "lincomb cfs = foldr (\<lambda>cf acc. vadd (map ((*) (fst cf)) (snd cf)) acc) cfs []"

definition qmam0 :: "real list Qmarray \<Rightarrow> real list \<Rightarrow> nat \<Rightarrow> real list Qmarray" where
  "qmam0 A M r = \<lparr>nrows = nrows A, ncols = r,
     funcs = concat (map (\<lambda>j. map (\<lambda>i.
        lincomb (map (\<lambda>k. (M ! (k + j * ncols A), funcs A ! (k * nrows A + i))) [0..<ncols A]))
        [0..<nrows A]) [0..<r])\<rparr>"

definition mqma0 :: "real list \<Rightarrow> real list Qmarray \<Rightarrow> nat \<Rightarrow> real list Qmarray" where
  "mqma0 M A r = \<lparr>nrows = r, ncols = ncols A,
     funcs = concat (map (\<lambda>j. map (\<lambda>i.
        lincomb (map (\<lambda>k. (M ! (i + k * r), funcs A ! (j * nrows A + k))) [0..<nrows A]))
        [0..<r]) [0..<ncols A])\<rparr>"

definition householder0 :: "string \<Rightarrow> real list Qmarray \<Rightarrow> real list \<Rightarrow> real list Qmarray \<times> real list" where
  "householder0 dir A buf =
     (let n = (if dir = ''QR'' then ncols A else nrows A)
      in (A, fold (\<lambda>j b. b[j + j * n := 1]) [0..<n] buf))"

definition dgemm0 :: "nat \<Rightarrow> nat \<Rightarrow> nat \<Rightarrow> real \<Rightarrow> real list \<Rightarrow> nat \<Rightarrow> real list \<Rightarrow> nat
                    \<Rightarrow> real \<Rightarrow> real list \<Rightarrow> nat \<Rightarrow> real list" where
  "dgemm0 m n k alpha A lda B ldb beta C ldc =
     map (\<lambda>idx. let i = idx mod ldc; j = idx div ldc in
            if i < m \<and> j < n
            then alpha * foldl (\<lambda>acc l. acc + A ! (i + l * lda) * B ! (l + j * ldb)) 0 [0..<k]
                 + beta * C ! idx
            else C ! idx) [0..<length C]"

definition tsvd_rank :: "real \<Rightarrow> real list \<Rightarrow> nat" where
  "tsvd_rank eps sv =
     max 1 (length (takeWhile
       (\<lambda>r. \<not> (sum_list (map (\<lambda>x. x * x) (drop r sv)) \<le> eps * eps * sum_list (map (\<lambda>x. x * x) sv)))
       [0..<length sv]))"

definition tsvd0 :: "nat \<Rightarrow> nat \<Rightarrow> nat \<Rightarrow> real list \<Rightarrow> real \<Rightarrow> nat \<times> real list \<times> real list \<times> real list" where
  "tsvd0 m n lda A eps =
     (let sv = map (\<lambda>i. A ! (i + i * lda)) [0..<min m n];
          r = tsvd_rank eps sv
      in (r,
          concat (map (\<lambda>j. map (\<lambda>i. if i = j then 1 else 0) [0..<m]) [0..<r]),
          take r sv,
          concat (map (\<lambda>j. map (\<lambda>i. if i = j then 1 else 0) [0..<r]) [0..<n])))"

definition ops0 :: "(real, real list) ops" where
  "ops0 = \<lparr>generic_function_inner = dot, qmam = qmam0, mqma = mqma0,
           qmarray_householder_simple = householder0, cblas_dgemm = dgemm0,
           truncated_svd = tsvd0, function_train_orthor = (\<lambda>t. (t, t))\<rparr>"

definition p0 :: "real list" where "p0 = [1, 0]"
definition p1 :: "real list" where "p1 = [0, 1]"
definition pz :: "real list" where "pz = [0, 0]"

definition target1 :: "real list FunctionTrain" where
  "target1 = \<lparr>dim = 3, ranks = [1, 2, 2, 1],
     cores = [Some \<lparr>nrows = 1, ncols = 2, funcs = [p0, p1]\<rparr>,
              Some \<lparr>nrows = 2, ncols = 2, funcs = [p0, pz, pz, p1]\<rparr>,
              Some \<lparr>nrows = 2, ncols = 1, funcs = [p0, p1]\<rparr>]\<rparr>"

definition target2 :: "real list FunctionTrain" where
  "target2 = \<lparr>dim = 3, ranks = [1, 2, 2, 1],
     cores = [Some \<lparr>nrows = 1, ncols = 2, funcs = [p0, p1]\<rparr>,
              Some \<lparr>nrows = 2, ncols = 2, funcs = [p0, p1, p1, p0]\<rparr>,
              Some \<lparr>nrows = 2, ncols = 1, funcs = [p0, p1]\<rparr>]\<rparr>"

definition guess1 :: "real list FunctionTrain" where
  "guess1 = \<lparr>dim = 3, ranks = [1, 1, 1, 1],
     cores = [Some \<lparr>nrows = 1, ncols = 1, funcs = [p0]\<rparr>,
              Some \<lparr>nrows = 1, ncols = 1, funcs = [p0]\<rparr>,
              Some \<lparr>nrows = 1, ncols = 1, funcs = [p0]\<rparr>]\<rparr>"

definition state0 :: "(real, real list) sweep_state" where
  "state0 = \<lparr>trains = [Some target1, Some target1], phi = [None, None],
              psi = [Some [1, 0, 0, 1], Some [1]]\<rparr>"

definition state1 :: "(real, real list) sweep_state" where
  "state1 = \<lparr>trains = [Some target1, Some target1, Some target1],
              phi = [Some [1], Some [1, 0, 0, 1]], psi = [Some [1, 0, 0, 1], Some [1]]\<rparr>"

definition state2 :: "(real, real list) sweep_state" where
  "state2 = \<lparr>trains = [Some target1, Some target1, Some target1, Some target1],
              phi = [Some [1], Some [1, 0, 0, 1]], psi = [Some [1, 0, 0, 1], Some [1]]\<rparr>"




text \<open>The memory between the two passes of the loop of the left-right sweep of
  \<open>target1\<close> against itself: the new train has its first core and the rank of the first cut.\<close>

definition mid_train :: "real list FunctionTrain" where
  "mid_train = \<lparr>dim = 3, ranks = [1, 2, 0, 1],
     cores = [Some \<lparr>nrows = 1, ncols = 2, funcs = [p0, p1]\<rparr>, None, None]\<rparr>"

definition mid_state :: "(real, real list) sweep_state" where
  "mid_state = \<lparr>trains = [Some target1, Some target1, Some mid_train],
                 phi = [Some [1], Some [1, 0, 0, 1]], psi = [Some [1, 0, 0, 1], Some [1]]\<rparr>"

section \<open>Checked accesses and loops\<close>


lemma bindE_Inr [simp]: "bindE (Inr x) f = f x"
  by (simp add: bindE_def)

lemma bindE_Inl [simp]: "bindE (Inl e) f = Inl e"
  by (simp add: bindE_def)

lemma bindE_eq_Inr: "bindE m f = Inr y \<longleftrightarrow> (\<exists>x. m = Inr x \<and> f x = Inr y)"
  by (cases m) simp_all

lemma bindE_eq_Inl: "bindE m f = Inl e \<longleftrightarrow> m = Inl e \<or> (\<exists>x. m = Inr x \<and> f x = Inl e)"
  by (cases m) simp_all

lemma nth_err_eq_Inr: "nth_err e xs i = Inr v \<longleftrightarrow> i < length xs \<and> v = xs ! i"
  by (auto simp: nth_err_def)

lemma nth_err_eq_Inl: "nth_err e xs i = Inl x \<longleftrightarrow> \<not> i < length xs \<and> x = e i"
  by (auto simp: nth_err_def)

lemma upd_err_eq_Inr: "upd_err e xs i v = Inr ys \<longleftrightarrow> i < length xs \<and> ys = xs[i := v]"
  by (auto simp: upd_err_def)

lemma upd_err_eq_Inl: "upd_err e xs i v = Inl x \<longleftrightarrow> \<not> i < length xs \<and> x = e i"
  by (auto simp: upd_err_def)

lemma deref_eq_Inr: "deref p = Inr v \<longleftrightarrow> p = Some v"
  by (cases p) (simp_all add: deref_def)

lemma deref_eq_Inl: "deref p = Inl e \<longleftrightarrow> p = None \<and> e = NullPointer"
  by (cases p) (auto simp: deref_def)

lemma foldE_append:
  "foldE body (xs @ ys) s = bindE (foldE body xs s) (foldE body ys)"
  by (induction xs arbitrary: s) (auto split: sum.splits)

lemma foldE_single: "foldE body [k] s = body k s"
  by (cases "body k s") simp_all

lemma foldE_snoc:
  "foldE body (xs @ [k]) s = bindE (foldE body xs s) (body k)"
  by (cases "foldE body xs s") (simp_all add: foldE_append split: sum.splits)

text \<open>An invariant of the body is an invariant of the loop.\<close>

lemma foldE_invariant:
  assumes "foldE body ks s = Inr s'" and "P s"
    and "\<And>k t t'. k \<in> set ks \<Longrightarrow> P t \<Longrightarrow> body k t = Inr t' \<Longrightarrow> P t'"
  shows "P s'"
  using assms
proof (induction ks arbitrary: s)
  case Nil
  then show ?case by simp
next
  case (Cons k ks)
  from Cons.prems(1) obtain t where t: "body k s = Inr t" "foldE body ks t = Inr s'"
    by (auto split: sum.splits)
  have "P t" using Cons.prems(2,3) t(1) by auto
  then show ?case using Cons.IH [OF t(2)] Cons.prems(3) by auto
qed

text \<open>An error of the loop is an error of one pass of the body.\<close>

lemma foldE_error:
  assumes "foldE body ks s = Inl e"
  shows "\<exists>k \<in> set ks. \<exists>t. body k t = Inl e"
  using assms
proof (induction ks arbitrary: s)
  case Nil
  then show ?case by simp
next
  case (Cons k ks)
  show ?case
  proof (cases "body k s")
    case (Inl x)
    then show ?thesis using Cons.prems by auto
  next
    case (Inr t)
    then have "foldE body ks t = Inl e" using Cons.prems by simp
    from Cons.IH [OF this] show ?thesis by auto
  qed
qed

lemma size_sub_le [simp]: "b \<le> a \<Longrightarrow> size_sub a b = a - b"
  by (simp add: size_sub_def)

lemma rev_upt_Suc: "j \<le> n \<Longrightarrow> rev [j..<Suc n] = n # rev [j..<n]"
  by simp

lemma foldE_error_inv:
  assumes "foldE body ks s = Inl e" and "P s"
    and "\<And>k t t'. k \<in> set ks \<Longrightarrow> P t \<Longrightarrow> body k t = Inr t' \<Longrightarrow> P t'"
  shows "\<exists>k \<in> set ks. \<exists>t. P t \<and> body k t = Inl e"
  using assms
proof (induction ks arbitrary: s)
  case Nil
  then show ?case by simp
next
  case (Cons k ks)
  show ?case
  proof (cases "body k s")
    case (Inl x)
    then show ?thesis using Cons.prems by auto
  next
    case (Inr t)
    then have run: "foldE body ks t = Inl e" using Cons.prems by simp
    have "P t" using Cons.prems(2,3) Inr by auto
    from Cons.IH [OF run this] Cons.prems(3) show ?thesis by auto
  qed
qed



section \<open>The right accumulators\<close>

text \<open>A loop whose passes each add to one cell adds the sum.\<close>

lemma foldE_accumulate:
  fixes val :: "'a::monoid_add list"
  assumes "foldE body ks val = Inr val'"
    and "\<And>k v v'. k \<in> set ks \<Longrightarrow> body k v = Inr v' \<Longrightarrow> v' = v[idx := v ! idx + f k]"
    and "idx < length val"
  shows "val' = val[idx := val ! idx + sum_list (map f ks)]"
  using assms
proof (induction ks arbitrary: val)
  case Nil
  then show ?case by simp
next
  case (Cons k ks)
  from Cons.prems(1) obtain v1 where v1: "body k val = Inr v1" "foldE body ks v1 = Inr val'"
    by (auto split: sum.splits)
  have e1: "v1 = val[idx := val ! idx + f k]"
    using Cons.prems(2) [of k val v1] v1(1) by simp
  have "val' = v1[idx := v1 ! idx + sum_list (map f ks)]"
    using Cons.IH [OF v1(2)] Cons.prems(2) Cons.prems(3) e1 by simp
  then show ?case using e1 Cons.prems(3) by (simp add: add.assoc)
qed

lemma update_right_term_Inr:
  assumes "update_right_term ops P L R ii jj kk ll val = Inr val'"
  shows "val' = val[ii * nrows L + jj := val ! (ii * nrows L + jj) +
           P ! (ll * ncols L + kk) *
           generic_function_inner ops (funcs L ! (kk * nrows L + jj)) (funcs R ! (ll * nrows R + ii))]"
  using assms
  by (auto simp: update_right_term_def bindE_eq_Inr nth_err_eq_Inr upd_err_eq_Inr)

text \<open>The two inner loops of \<open>dmrg_update_right\<close> add one entry of the contraction
  to the cell of \<open>(ii, jj)\<close>.\<close>

lemma update_right_cell:
  fixes val :: "'a::{monoid_add,times} list"
  assumes "foldE (\<lambda>kk. foldE (\<lambda>ll. update_right_term ops P L R ii jj kk ll) [0..<ncols R])
             [0..<ncols L] val = Inr val'"
    and "ii * nrows L + jj < length val"
  shows "val' = val[ii * nrows L + jj :=
            val ! (ii * nrows L + jj) + contract_entry ops P L R jj ii]"
  unfolding contract_entry_def
proof (rule foldE_accumulate [OF assms(1) _ assms(2)])
  fix kk and v v' :: "'a list"
  assume "foldE (\<lambda>ll. update_right_term ops P L R ii jj kk ll) [0..<ncols R] v = Inr v'"
  then have len: "length v' = length v"
    by (rule foldE_invariant [where P = "\<lambda>t. length t = length v"])
       (auto dest!: update_right_term_Inr)
  assume run: "foldE (\<lambda>ll. update_right_term ops P L R ii jj kk ll) [0..<ncols R] v = Inr v'"
  show "v' = v[ii * nrows L + jj := v ! (ii * nrows L + jj) +
          (\<Sum>b\<leftarrow>[0..<ncols R]. P ! (b * ncols L + kk) *
             generic_function_inner ops (funcs L ! (kk * nrows L + jj)) (funcs R ! (b * nrows R + ii)))]"
  proof (cases "ii * nrows L + jj < length v")
    case True
    show ?thesis
      by (rule foldE_accumulate [OF run _ True]) (erule update_right_term_Inr)
  next
    case False
    have "v' = v"
      using run
      by (rule foldE_invariant [where P = "\<lambda>t. t = v"])
         (use False in \<open>auto dest!: update_right_term_Inr simp: list_update_beyond\<close>)
    then show ?thesis using False by (simp add: list_update_beyond)
  qed
qed

lemma cell_index_less: "ii < nc \<Longrightarrow> jj < nr \<Longrightarrow> ii * nr + jj < nr * (nc::nat)"
proof -
  assume a: "ii < nc" "jj < nr"
  have "ii * nr + jj < ii * nr + nr" using a by simp
  also have "\<dots> = Suc ii * nr" by simp
  also have "\<dots> \<le> nc * nr" using a by (intro mult_le_mono1) simp
  finally show ?thesis by (simp add: mult.commute)
qed

lemma cell_index_inj:
  assumes "jj < nr" "jj' < nr" "ii * nr + jj = ii' * nr + (jj'::nat)"
  shows "ii = ii' \<and> jj = jj'"
proof -
  have "(ii * nr + jj) div nr = ii" "(ii * nr + jj) mod nr = jj"
    "(ii' * nr + jj') div nr = ii'" "(ii' * nr + jj') mod nr = jj'"
    using assms(1,2) by simp_all
  then show ?thesis using assms(3) by metis
qed

text \<open>A loop over the rows of a column-major matrix whose pass \<open>jj\<close> applies \<open>g jj\<close> to
  cell \<open>base + jj\<close>.\<close>

lemma foldE_row:
  fixes v :: "'a list"
  assumes "foldE body [0..<m] v = Inr v'"
    and "\<And>jj t t'. jj < m \<Longrightarrow> length t = length v \<Longrightarrow> body jj t = Inr t' \<Longrightarrow>
           t' = t[base + jj := g jj (t ! (base + jj))]"
    and "base + m \<le> length v"
  shows "length v' = length v \<and> (\<forall>jj<m. v' ! (base + jj) = g jj (v ! (base + jj))) \<and>
         (\<forall>i. i < base \<or> base + m \<le> i \<longrightarrow> v' ! i = v ! i)"
  using assms
proof (induction m arbitrary: v')
  case 0
  then show ?case by simp
next
  case (Suc m)
  from Suc.prems(1) obtain mid where mid: "foldE body [0..<m] v = Inr mid" "body m mid = Inr v'"
    by (auto simp: foldE_snoc bindE_eq_Inr)
  have IH: "length mid = length v \<and> (\<forall>jj<m. mid ! (base + jj) = g jj (v ! (base + jj))) \<and>
         (\<forall>i. i < base \<or> base + m \<le> i \<longrightarrow> mid ! i = v ! i)"
    using Suc.IH [OF mid(1)] Suc.prems(2,3) by simp
  have v': "v' = mid[base + m := g m (mid ! (base + m))]"
    using Suc.prems(2) [of m mid v'] mid(2) IH by simp
  show ?case
    using IH v' Suc.prems(3) by (auto simp: nth_list_update less_Suc_eq)
qed

text \<open>The double loop that fills a matrix of \<open>nr\<close> rows and \<open>nc\<close> columns.\<close>

lemma foldE_fill:
  fixes val :: "'a list"
  assumes "foldE (\<lambda>ii. foldE (body ii) [0..<nr]) [0..<n] val = Inr val'"
    and "\<And>ii jj t t'. ii < n \<Longrightarrow> jj < nr \<Longrightarrow> length t = length val \<Longrightarrow> body ii jj t = Inr t' \<Longrightarrow>
           t' = t[ii * nr + jj := g ii jj (t ! (ii * nr + jj))]"
    and "n * nr \<le> length val"
  shows "length val' = length val \<and>
         (\<forall>ii<n. \<forall>jj<nr. val' ! (ii * nr + jj) = g ii jj (val ! (ii * nr + jj))) \<and>
         (\<forall>i. n * nr \<le> i \<longrightarrow> val' ! i = val ! i)"
  using assms
proof (induction n arbitrary: val')
  case 0
  then show ?case by simp
next
  case (Suc n)
  from Suc.prems(1) obtain mid where
    mid: "foldE (\<lambda>ii. foldE (body ii) [0..<nr]) [0..<n] val = Inr mid"
      "foldE (body n) [0..<nr] mid = Inr val'"
    by (auto simp: foldE_snoc bindE_eq_Inr)
  have IH: "length mid = length val \<and>
         (\<forall>ii<n. \<forall>jj<nr. mid ! (ii * nr + jj) = g ii jj (val ! (ii * nr + jj))) \<and>
         (\<forall>i. n * nr \<le> i \<longrightarrow> mid ! i = val ! i)"
    using Suc.IH [OF mid(1)] Suc.prems(2,3) by simp
  have row: "length val' = length mid \<and>
         (\<forall>jj<nr. val' ! (n * nr + jj) = g n jj (mid ! (n * nr + jj))) \<and>
         (\<forall>i. i < n * nr \<or> n * nr + nr \<le> i \<longrightarrow> val' ! i = mid ! i)"
  proof (rule foldE_row [OF mid(2)])
    fix jj t t'
    assume "jj < nr" "length t = length mid" "body n jj t = Inr t'"
    then show "t' = t[n * nr + jj := g n jj (t ! (n * nr + jj))]"
      using Suc.prems(2) [of n jj t t'] IH by simp
  next
    show "n * nr + nr \<le> length mid" using Suc.prems(3) IH by simp
  qed
  have other: "ii * nr + jj < n * nr" if "ii < n" "jj < nr" for ii jj
    using cell_index_less [OF that] by (simp add: mult.commute)
  show ?case
  proof (intro conjI allI impI)
    show "length val' = length val" using row IH by simp
  next
    fix ii jj
    assume a: "ii < Suc n" "jj < nr"
    show "val' ! (ii * nr + jj) = g ii jj (val ! (ii * nr + jj))"
    proof (cases "ii = n")
      case True
      have "mid ! (n * nr + jj) = val ! (n * nr + jj)" using IH by simp
      then show ?thesis using row a True by simp
    next
      case False
      then have "ii < n" using a by simp
      then show ?thesis using row IH other [of ii jj] a by simp
    qed
  next
    fix i
    assume "Suc n * nr \<le> i"
    then show "val' ! i = val ! i" using row IH by simp
  qed
qed

lemma dmrg_update_right_contract:
  fixes P :: "'a::{monoid_add,times} list"
  assumes "dmrg_update_right ops P L R = Inr val"
  shows "val = contract ops P L R"
proof -
  let ?z = "replicate (nrows L * nrows R) (0::'a)"
  have fill: "length val = length ?z \<and>
         (\<forall>ii<nrows R. \<forall>jj<nrows L. val ! (ii * nrows L + jj) =
             ?z ! (ii * nrows L + jj) + contract_entry ops P L R jj ii) \<and>
         (\<forall>i. nrows R * nrows L \<le> i \<longrightarrow> val ! i = ?z ! i)"
  proof (rule foldE_fill [where g = "\<lambda>ii jj x. x + contract_entry ops P L R jj ii"])
    show "foldE (\<lambda>ii. foldE (\<lambda>jj. foldE (\<lambda>kk. foldE (\<lambda>ll.
         update_right_term ops P L R ii jj kk ll)
         [0..<ncols R]) [0..<ncols L]) [0..<nrows L]) [0..<nrows R] ?z = Inr val"
      using assms by (simp add: dmrg_update_right_def)
  next
    fix ii jj and t t' :: "'a list"
    assume a: "ii < nrows R" "jj < nrows L" "length t = length ?z"
      and run: "foldE (\<lambda>kk. foldE (\<lambda>ll. update_right_term ops P L R ii jj kk ll) [0..<ncols R])
                  [0..<ncols L] t = Inr t'"
    have "ii * nrows L + jj < length t"
      using cell_index_less [OF a(1,2)] a(3) by simp
    from update_right_cell [OF run this]
    show "t' = t[ii * nrows L + jj := t ! (ii * nrows L + jj) + contract_entry ops P L R jj ii]" .
  next
    show "nrows R * nrows L \<le> length ?z" by (simp add: mult.commute)
  qed
  show ?thesis
  proof (rule nth_equalityI)
    show "length val = length (contract ops P L R)"
      using fill by (simp add: contract_def)
  next
    fix i
    assume "i < length val"
    then have i: "i < nrows L * nrows R" using fill by simp
    then have pos: "0 < nrows L" by (cases "nrows L") simp_all
    have d: "i div nrows L < nrows R"
      using i pos by (simp add: less_mult_imp_div_less mult.commute)
    have m: "i mod nrows L < nrows L" using pos by simp
    have "val ! ((i div nrows L) * nrows L + i mod nrows L) =
          ?z ! ((i div nrows L) * nrows L + i mod nrows L) +
          contract_entry ops P L R (i mod nrows L) (i div nrows L)"
      using fill d m by blast
    then have "val ! i = contract_entry ops P L R (i mod nrows L) (i div nrows L)"
      using i by simp
    then show "val ! i = contract ops P L R ! i"
      using i by (simp add: contract_def)
  qed
qed

lemma foldE_error_cases:
  assumes "foldE body ks s = Inl e"
  obtains k t where "body k t = Inl e"
  using foldE_error [OF assms] by blast

lemma dmrg_update_right_error:
  assumes "dmrg_update_right ops P L R = Inl e"
  shows "(\<exists>i. e = BufferIndex i) \<or> (\<exists>i. e = FuncIndex i)"
proof -
  have t: "(\<exists>i. e = BufferIndex i) \<or> (\<exists>i. e = FuncIndex i)"
    if "update_right_term ops P L R ii jj kk ll v = Inl e" for ii jj kk ll v
    using that
    by (auto simp: update_right_term_def bindE_eq_Inl nth_err_eq_Inl upd_err_eq_Inl)
  from assms show ?thesis
    unfolding dmrg_update_right_def
    by (elim foldE_error_cases) (rule t)
qed

text \<open>One step of the initialisation: the slot \<open>ii\<close> becomes the contraction of the
  slot \<open>ii + 1\<close> with the cores \<open>ii + 2\<close> of the two trains, and no other slot changes.\<close>

lemma update_all_right_step_Inr:
  fixes mats :: "'a::{monoid_add,times} list option list"
  assumes "update_all_right_step ops h a b ii mats = Inr mats'"
  shows "\<exists>P L R. mats ! (ii + 1) = Some P \<and> core_at h a (ii + 2) = Inr L \<and>
           core_at h b (ii + 2) = Inr R \<and> ii + 1 < length mats \<and>
           mats' = mats[ii := Some (contract ops P L R)]"
  using assms
  by (auto simp: update_all_right_step_def bindE_eq_Inr nth_err_eq_Inr upd_err_eq_Inr
      deref_eq_Inr dest!: dmrg_update_right_contract)

lemma core_at_error:
  assumes "core_at h p k = Inl e"
  shows "e = InvalidTrain p \<or> e = CoreIndex k \<or> e = NullPointer"
  using assms
  by (auto simp: core_at_def train_at_def bindE_eq_Inl nth_err_eq_Inl deref_eq_Inl
      split: if_splits option.splits)

lemma update_all_right_step_error:
  assumes "update_all_right_step ops h a b ii mats = Inl (AccumulatorIndex i)"
  shows "\<not> ii + 1 < length mats"
  using assms
  by (auto simp: update_all_right_step_def bindE_eq_Inl nth_err_eq_Inl upd_err_eq_Inl
      nth_err_eq_Inr upd_err_eq_Inr deref_eq_Inl
      dest: dmrg_update_right_error core_at_error)



lemma length_contract [simp]: "length (contract ops P L R) = nrows L * nrows R"
  by (simp add: contract_def)








text \<open>An access outside the accumulator array cannot happen from three dimensions on.\<close>

lemma dmrg_update_all_right_in_range:
  fixes mats :: "'a::{monoid_add,times,one} list option list"
  assumes "train_at h a = Inr ta" "3 \<le> dim ta" "length mats = dim ta - 1"
  shows "dmrg_update_all_right ops h a b mats \<noteq> Inl (AccumulatorIndex i)"
proof
  let ?d = "dim ta"
  let ?m1 = "mats[?d - 2 := Some [1::'a]]"
  let ?len = "\<lambda>t::'a list option list. length t = ?d - 1"
  assume err: "dmrg_update_all_right ops h a b mats = Inl (AccumulatorIndex i)"
  have s2: "size_sub ?d 2 = ?d - 2" and s3: "size_sub ?d 3 = ?d - 3"
    using assms(2) by simp_all
  have inb: "?d - 2 < length mats" using assms(2,3) by simp
  have keep: "?len t'" if "?len t" "update_all_right_step ops h a b k t = Inr t'" for k t t'
    using update_all_right_step_Inr [OF that(2)] that(1) by auto
  from err have "foldE (update_all_right_step ops h a b) (rev [1..<Suc (?d - 3)]) ?m1
       = Inl (AccumulatorIndex i) \<or>
     (\<exists>m2. foldE (update_all_right_step ops h a b) (rev [1..<Suc (?d - 3)]) ?m1 = Inr m2 \<and>
        update_all_right_step ops h a b 0 m2 = Inl (AccumulatorIndex i))"
    using assms(1) inb
    by (simp add: dmrg_update_all_right_def s2 s3 nth_err_def upd_err_def bindE_eq_Inl
        del: upt_Suc)
  then show False
  proof
    assume "foldE (update_all_right_step ops h a b) (rev [1..<Suc (?d - 3)]) ?m1
       = Inl (AccumulatorIndex i)"
    from foldE_error_inv [OF this, where P = ?len] keep assms(3)
    obtain k t where k: "k \<in> set (rev [1..<Suc (?d - 3)])" "?len t"
      "update_all_right_step ops h a b k t = Inl (AccumulatorIndex i)"
      by auto
    from update_all_right_step_error [OF k(3)] k(1,2) assms(2) show False by auto
  next
    assume "\<exists>m2. foldE (update_all_right_step ops h a b) (rev [1..<Suc (?d - 3)]) ?m1 = Inr m2 \<and>
        update_all_right_step ops h a b 0 m2 = Inl (AccumulatorIndex i)"
    then obtain m2 where
      m2: "foldE (update_all_right_step ops h a b) (rev [1..<Suc (?d - 3)]) ?m1 = Inr m2"
        "update_all_right_step ops h a b 0 m2 = Inl (AccumulatorIndex i)"
      by blast
    have "?len m2"
      by (rule foldE_invariant [OF m2(1), where P = ?len]) (use assms(3) keep in auto)
    with update_all_right_step_error [OF m2(2)] assms(2) show False by auto
  qed
qed

text \<open>With two dimensions the counter of the loop starts at \<open>2^64 - 1\<close>, and the first
  pass releases that slot of an array of one.\<close>

lemma dmrg_update_all_right_dim2:
  fixes mats :: "'a::{monoid_add,times,one} list option list"
  assumes "train_at h a = Inr ta" "dim ta = 2" "length mats = 1"
  shows "dmrg_update_all_right ops h a b mats = Inl (AccumulatorIndex (2 ^ 64 - 1))"
proof -
  have s3: "size_sub 2 3 = 2 ^ 64 - 1" by (simp add: size_sub_def)
  have r: "rev [1..<Suc (2 ^ 64 - 1)] = (2 ^ 64 - 1) # rev [1..<2 ^ 64 - 1]"
    by (rule rev_upt_Suc) simp
  have step: "update_all_right_step ops h a b (2 ^ 64 - 1) (mats[0 := Some [1]])
      = Inl (AccumulatorIndex (2 ^ 64 - 1))"
    using assms(3) by (simp add: update_all_right_step_def nth_err_def)
  have loop: "foldE (update_all_right_step ops h a b) (rev [1..<Suc (size_sub 2 3)])
      (mats[0 := Some [1]]) = Inl (AccumulatorIndex (2 ^ 64 - 1))"
    unfolding s3 r using step by simp
  show ?thesis
    using assms loop
    by (simp add: dmrg_update_all_right_def nth_err_def upd_err_def del: upt_Suc)
qed

section \<open>Frame properties of the sweeps\<close>

lemma train_at_eq_Inr: "train_at h p = Inr t \<longleftrightarrow> p < length h \<and> h ! p = Some t"
  by (auto simp: train_at_def split: option.splits)

lemma set_rank_Inr:
  assumes "set_rank h p k r = Inr h'"
  shows "\<exists>t. train_at h p = Inr t \<and> k < length (ranks t) \<and>
           h' = h[p := Some (t\<lparr>ranks := (ranks t)[k := r]\<rparr>)]"
  using assms by (auto simp: set_rank_def bindE_eq_Inr upd_err_eq_Inr)

lemma set_core_Inr:
  assumes "set_core h p k q = Inr h'"
  shows "\<exists>t. train_at h p = Inr t \<and> k < length (cores t) \<and>
           h' = h[p := Some (t\<lparr>cores := (cores t)[k := Some q]\<rparr>)]"
  using assms by (auto simp: set_core_def bindE_eq_Inr upd_err_eq_Inr)

lemma same_but_refl [simp]: "same_but p h h"
  by (simp add: same_but_def)

lemma same_but_trans: "same_but p h h' \<Longrightarrow> same_but p h' h'' \<Longrightarrow> same_but p h h''"
  by (simp add: same_but_def)

lemma set_rank_same_but: "set_rank h p k r = Inr h' \<Longrightarrow> same_but p h h'"
  by (auto dest!: set_rank_Inr simp: same_but_def)

lemma set_core_same_but: "set_core h p k q = Inr h' \<Longrightarrow> same_but p h h'"
  by (auto dest!: set_core_Inr simp: same_but_def)

lemma lr_update_phi_Inr:
  assumes "lr_update_phi ops h na b ii ph = Inr ph'"
  shows "\<exists>phik left right val. ii + 1 < length ph \<and> ph ! ii = Some phik \<and>
           core_at h na ii = Inr left \<and> core_at h b ii = Inr right \<and>
           dmrg_update_left ops phik left right = Inr val \<and> ph' = ph[ii + 1 := Some val]"
  using assms
  by (auto simp: lr_update_phi_def bindE_eq_Inr nth_err_eq_Inr upd_err_eq_Inr deref_eq_Inr)

lemma rl_update_psi_Inr:
  assumes "rl_update_psi ops h na b ii ps = Inr ps'" "0 < ii"
  shows "\<exists>psik left right val. ii < length ps \<and> ps ! ii = Some psik \<and>
           core_at h b (ii + 1) = Inr left \<and> core_at h na (ii + 1) = Inr right \<and>
           dmrg_update_right ops psik left right = Inr val \<and> ps' = ps[ii - 1 := Some val]"
  using assms
  by (auto simp: rl_update_psi_def bindE_eq_Inr nth_err_eq_Inr upd_err_eq_Inr deref_eq_Inr)

text \<open>What one pass of the left-right loop changes: the output train, and the left
  accumulator \<open>ii + 1\<close> unless the pass is the last.\<close>

lemma set_rank_frame:
  "set_rank h p k r = Inr h' \<Longrightarrow> length h' = length h \<and> (\<forall>q. q \<noteq> p \<longrightarrow> h' ! q = h ! q)"
  by (auto dest!: set_rank_Inr)

lemma set_core_frame:
  "set_core h p k c = Inr h' \<Longrightarrow> length h' = length h \<and> (\<forall>q. q \<noteq> p \<longrightarrow> h' ! q = h ! q)"
  by (auto dest!: set_core_Inr)

lemma lr_update_phi_frame:
  "lr_update_phi ops h na b ii ph = Inr ph' \<Longrightarrow>
     length ph' = length ph \<and> (\<forall>j. j \<noteq> ii + 1 \<longrightarrow> ph' ! j = ph ! j)"
  by (auto dest!: lr_update_phi_Inr)

lemma lr_step_frame:
  assumes "lr_step ops a b na epsilon ii sl = Inr sl'" "train_at (trains (fst sl)) a = Inr ta"
  shows "psi (fst sl') = psi (fst sl) \<and> same_but na (trains (fst sl)) (trains (fst sl')) \<and>
         length (phi (fst sl')) = length (phi (fst sl)) \<and>
         (\<forall>j. j \<noteq> ii + 1 \<longrightarrow> phi (fst sl') ! j = phi (fst sl) ! j) \<and>
         (\<not> ii < size_sub (dim ta) 2 \<longrightarrow> phi (fst sl') = phi (fst sl))"
  using assms unfolding lr_step_def Let_def same_but_def
  by (auto simp: bindE_eq_Inr split: if_splits
      dest!: set_rank_frame set_core_frame lr_update_phi_frame)

lemma bindE_InrE:
  assumes "bindE m f = Inr y"
  obtains x where "m = Inr x" "f x = Inr y"
  using assms by (auto simp: bindE_eq_Inr)

text \<open>The statements of one pass of the left-right loop, in order.\<close>

lemma lr_step_Inr:
  assumes "lr_step ops a b na epsilon ii (s, lsize) = Inr sl'"
  shows "\<exists>ta bcore rsize bcore1 pp Psi pq Phi h1 h2 h3 ph acore.
     train_at (trains s) a = Inr ta \<and>
     core_at (trains s) b ii = Inr bcore \<and>
     (if ii = size_sub (dim ta) 2 then Inr 1
      else bindE (core_at (trains s) a (ii + 1)) (\<lambda>c. Inr (ncols c))) = Inr rsize \<and>
     core_at (trains s) b (ii + 1) = Inr bcore1 \<and>
     nth_err AccumulatorIndex (psi s) ii = Inr pp \<and> deref pp = Inr Psi \<and>
     nth_err AccumulatorIndex (phi s) ii = Inr pq \<and> deref pq = Inr Phi \<and>
     set_rank (trains s) na (ii + 1)
       (split_rank (two_core_split ops epsilon Phi Psi bcore bcore1 lsize rsize)) = Inr h1 \<and>
     set_core h1 na ii
       (qmam ops (split_tempr (two_core_split ops epsilon Phi Psi bcore bcore1 lsize rsize))
          (split_u (two_core_split ops epsilon Phi Psi bcore bcore1 lsize rsize))
          (split_rank (two_core_split ops epsilon Phi Psi bcore bcore1 lsize rsize))) = Inr h2 \<and>
     (if ii + 1 = size_sub (dim ta) 1
      then bindE (scale_vt (ncols bcore)
                   (split_rank (two_core_split ops epsilon Phi Psi bcore bcore1 lsize rsize))
                   (split_s (two_core_split ops epsilon Phi Psi bcore bcore1 lsize rsize))
                   (split_vt (two_core_split ops epsilon Phi Psi bcore bcore1 lsize rsize)))
             (\<lambda>vt'. set_core h2 na (ii + 1)
                (mqma ops vt' (split_templ (two_core_split ops epsilon Phi Psi bcore bcore1 lsize rsize))
                   (split_rank (two_core_split ops epsilon Phi Psi bcore bcore1 lsize rsize))))
      else Inr h2) = Inr h3 \<and>
     (if ii < size_sub (dim ta) 2 then lr_update_phi ops h3 na b ii (phi s)
      else Inr (phi s)) = Inr ph \<and>
     core_at h3 a ii = Inr acore \<and>
     sl' = (s\<lparr>trains := h3, phi := ph\<rparr>, ncols acore)"
  using assms unfolding lr_step_def Let_def fst_conv snd_conv
  apply (elim bindE_InrE)
  apply (intro exI conjI)
             apply assumption+
  apply simp
  done

text \<open>The statements of one pass of the right-left loop, in order.\<close>

lemma rl_step_Inr:
  assumes "rl_step ops a b na epsilon ii (s, rsize) = Inr sr'"
  shows "\<exists>bcore lsize ii1 bcore1 pp Psi pq Phi h1 h2 h3 ps acore.
     core_at (trains s) b ii = Inr bcore \<and>
     (if ii = 0 then Inr 1
      else bindE (core_at (trains s) a (ii - 1)) (\<lambda>c. Inr (ncols c))) = Inr lsize \<and>
     (if int ii + 1 \<le> 2 ^ 31 - 1 then Inr (ii + 1) else Inl SignedOverflow) = Inr ii1 \<and>
     core_at (trains s) b ii1 = Inr bcore1 \<and>
     nth_err AccumulatorIndex (psi s) ii = Inr pp \<and> deref pp = Inr Psi \<and>
     nth_err AccumulatorIndex (phi s) ii = Inr pq \<and> deref pq = Inr Phi \<and>
     set_rank (trains s) na ii1
       (split_rank (two_core_split ops epsilon Phi Psi bcore bcore1 lsize rsize)) = Inr h1 \<and>
     set_core h1 na ii1
       (mqma ops (split_vt (two_core_split ops epsilon Phi Psi bcore bcore1 lsize rsize))
          (split_templ (two_core_split ops epsilon Phi Psi bcore bcore1 lsize rsize))
          (split_rank (two_core_split ops epsilon Phi Psi bcore bcore1 lsize rsize))) = Inr h2 \<and>
     (if ii = 0
      then bindE (scale_u (ncols bcore)
                   (split_rank (two_core_split ops epsilon Phi Psi bcore bcore1 lsize rsize))
                   (split_s (two_core_split ops epsilon Phi Psi bcore bcore1 lsize rsize))
                   (split_u (two_core_split ops epsilon Phi Psi bcore bcore1 lsize rsize)))
             (\<lambda>u'. set_core h2 na ii
                (qmam ops (split_tempr (two_core_split ops epsilon Phi Psi bcore bcore1 lsize rsize)) u'
                   (split_rank (two_core_split ops epsilon Phi Psi bcore bcore1 lsize rsize))))
      else Inr h2) = Inr h3 \<and>
     (if ii > 0 then rl_update_psi ops h3 na b ii (psi s)
      else Inr (psi s)) = Inr ps \<and>
     core_at h3 a ii1 = Inr acore \<and>
     sr' = (s\<lparr>trains := h3, psi := ps\<rparr>, nrows acore)"
  using assms unfolding rl_step_def Let_def fst_conv snd_conv
  apply (elim bindE_InrE)
  apply (intro exI conjI)
               apply assumption+
  apply simp
  done

lemma dims_kept_refl [simp]: "dims_kept h h"
  by (simp add: dims_kept_def)

lemma dims_kept_trans: "dims_kept h h' \<Longrightarrow> dims_kept h' h'' \<Longrightarrow> dims_kept h h''"
  unfolding dims_kept_def by fastforce

lemma set_rank_dims: "set_rank h p k r = Inr h' \<Longrightarrow> dims_kept h h'"
  by (auto dest!: set_rank_Inr simp: dims_kept_def train_at_eq_Inr nth_list_update)

lemma set_core_dims: "set_core h p k c = Inr h' \<Longrightarrow> dims_kept h h'"
  by (auto dest!: set_core_Inr simp: dims_kept_def train_at_eq_Inr nth_list_update)

lemma if_set_core_dims:
  "(if c then bindE m (\<lambda>x. set_core h p k (f x)) else Inr h) = Inr h' \<Longrightarrow> dims_kept h h'"
  by (auto simp: bindE_eq_Inr split: if_splits dest: set_core_dims)

lemma lr_step_dims:
  assumes "lr_step ops a b na epsilon ii sl = Inr sl'"
  shows "dims_kept (trains (fst sl)) (trains (fst sl'))"
proof -
  from lr_step_Inr [of ops a b na epsilon ii "fst sl" "snd sl" sl'] assms
  obtain h1 h2 h3 r q c m and f :: "'a list \<Rightarrow> 'b Qmarray" where
    "set_rank (trains (fst sl)) na (ii + 1) r = Inr h1" "set_core h1 na ii q = Inr h2"
    "(if c then bindE m (\<lambda>x. set_core h2 na (ii + 1) (f x)) else Inr h2) = Inr h3"
    "trains (fst sl') = h3"
    by fastforce
  then show ?thesis
    by (metis dims_kept_trans set_rank_dims set_core_dims if_set_core_dims)
qed

lemma rl_step_dims:
  assumes "rl_step ops a b na epsilon ii sr = Inr sr'"
  shows "dims_kept (trains (fst sr)) (trains (fst sr'))"
proof -
  from rl_step_Inr [of ops a b na epsilon ii "fst sr" "snd sr" sr'] assms
  obtain h1 h2 h3 r q c m k and f :: "'a list \<Rightarrow> 'b Qmarray" where
    "set_rank (trains (fst sr)) na k r = Inr h1" "set_core h1 na k q = Inr h2"
    "(if c then bindE m (\<lambda>x. set_core h2 na ii (f x)) else Inr h2) = Inr h3"
    "trains (fst sr') = h3"
    by fastforce
  then show ?thesis
    by (metis dims_kept_trans set_rank_dims set_core_dims if_set_core_dims)
qed

lemma rl_update_psi_frame:
  "rl_update_psi ops h na b ii ps = Inr ps' \<Longrightarrow>
     length ps' = length ps \<and> (\<forall>j. j \<noteq> ii - 1 \<longrightarrow> ps' ! j = ps ! j)"
  by (auto simp: rl_update_psi_def bindE_eq_Inr nth_err_eq_Inr upd_err_eq_Inr)

text \<open>What one pass of the right-left loop changes: the output train, and the right
  accumulator \<open>ii - 1\<close> unless the pass is the last.\<close>

lemma rl_step_frame:
  assumes "rl_step ops a b na epsilon ii sr = Inr sr'"
  shows "phi (fst sr') = phi (fst sr) \<and> same_but na (trains (fst sr)) (trains (fst sr')) \<and>
         length (psi (fst sr')) = length (psi (fst sr)) \<and>
         (\<forall>j. j \<noteq> ii - 1 \<longrightarrow> psi (fst sr') ! j = psi (fst sr) ! j) \<and>
         (ii = 0 \<longrightarrow> psi (fst sr') = psi (fst sr))"
  using assms unfolding rl_step_def Let_def same_but_def
  by (auto simp: bindE_eq_Inr split: if_splits
      dest!: set_rank_frame set_core_frame rl_update_psi_frame)

lemma int_of_size_t_le: "int_of_size_t n \<le> int n"
proof -
  have "int n mod 2 ^ 32 \<le> int n" by (rule zmod_le_nonneg_dividend) simp
  then show ?thesis by (auto simp: int_of_size_t_def Let_def)
qed

text \<open>The start of both sweeps: the output train is allocated at the next address and
  its two boundary ranks are set.\<close>

lemma sweep_alloc:
  assumes "set_rank (snd (function_train_alloc d h)) (fst (function_train_alloc d h)) 0 1 = Inr h1"
    and "train_at h1 (fst (function_train_alloc d h)) = Inr tn"
    and "set_rank h1 (fst (function_train_alloc d h)) (dim tn) 1 = Inr h2"
  shows "length h2 = Suc (length h) \<and> (\<forall>q<length h. h2 ! q = h ! q) \<and>
         h2 ! length h = Some \<lparr>dim = d, ranks = (replicate (d + 1) 0)[0 := 1, d := 1],
                                cores = replicate d None\<rparr>"
  using assms
  by (auto simp: function_train_alloc_def train_at_eq_Inr nth_append
      dest!: set_rank_Inr)

text \<open>A sweep that returns: the output train at the next address, with its boundary
  ranks set, and then the loop.\<close>

lemma dmrg_sweep_lr_Inr:
  assumes "dmrg_sweep_lr ops a b epsilon s = Inr (na, s')" "train_at (trains s) a = Inr ta"
  shows "\<exists>h2 sl. na = length (trains s) \<and> s' = fst sl \<and> 0 < length (phi s) \<and>
     length h2 = Suc (length (trains s)) \<and> (\<forall>q<length (trains s). h2 ! q = trains s ! q) \<and>
     h2 ! length (trains s) =
       Some \<lparr>dim = dim ta, ranks = (replicate (dim ta + 1) 0)[0 := 1, dim ta := 1],
             cores = replicate (dim ta) None\<rparr> \<and>
     foldE (lr_step ops a b (length (trains s)) epsilon) [0..<size_sub (dim ta) 1]
       (s\<lparr>trains := h2,
          phi := if phi s ! 0 = None then (phi s)[0 := Some [1]] else phi s\<rparr>, 1) = Inr sl"
proof -
  let ?al = "function_train_alloc (dim ta) (trains s)"
  from assms obtain h1 tn h2 sl where
    h1: "set_rank (snd ?al) (fst ?al) 0 1 = Inr h1"
    and tn: "train_at h1 (fst ?al) = Inr tn"
    and h2: "set_rank h1 (fst ?al) (dim tn) 1 = Inr h2"
    and p0: "0 < length (phi s)"
    and loop: "foldE (lr_step ops a b (fst ?al) epsilon)
                 [0..<size_sub (dim ta) 1]
                 (s\<lparr>trains := h2,
                    phi := if phi s ! 0 = None then (phi s)[0 := Some [1]] else phi s\<rparr>, 1) = Inr sl"
    and res: "na = fst ?al" "s' = fst sl"
    by (auto simp: dmrg_sweep_lr_def Let_def bindE_eq_Inr nth_err_eq_Inr)
  have na: "fst ?al = length (trains s)" by (simp add: function_train_alloc_def)
  note al = sweep_alloc [OF h1 tn h2]
  note loop' = loop [unfolded na]
  have "na = length (trains s)" using res na by simp
  then show ?thesis using al loop' res(2) p0 by blast
qed

lemma dmrg_sweep_rl_Inr:
  assumes "dmrg_sweep_rl ops a b epsilon s = Inr (na, s')" "train_at (trains s) a = Inr ta"
  shows "\<exists>h2 sr. na = length (trains s) \<and> s' = fst sr \<and>
     size_sub (dim ta) 2 < length (psi s) \<and>
     length h2 = Suc (length (trains s)) \<and> (\<forall>q<length (trains s). h2 ! q = trains s ! q) \<and>
     h2 ! length (trains s) =
       Some \<lparr>dim = dim ta, ranks = (replicate (dim ta + 1) 0)[0 := 1, dim ta := 1],
             cores = replicate (dim ta) None\<rparr> \<and>
     foldE (rl_step ops a b (length (trains s)) epsilon)
       (rev [0..<nat (int_of_size_t (size_sub (dim ta) 2) + 1)])
       (s\<lparr>trains := h2,
          psi := if psi s ! size_sub (dim ta) 2 = None
                 then (psi s)[size_sub (dim ta) 2 := Some [1]] else psi s\<rparr>, 1) = Inr sr"
proof -
  let ?al = "function_train_alloc (dim ta) (trains s)"
  from assms obtain h1 tn h2 sr where
    h1: "set_rank (snd ?al) (fst ?al) 0 1 = Inr h1"
    and tn: "train_at h1 (fst ?al) = Inr tn"
    and h2: "set_rank h1 (fst ?al) (dim tn) 1 = Inr h2"
    and p0: "size_sub (dim ta) 2 < length (psi s)"
    and loop: "foldE (rl_step ops a b (fst ?al) epsilon)
                 (rev [0..<nat (int_of_size_t (size_sub (dim ta) 2) + 1)])
                 (s\<lparr>trains := h2,
                    psi := if psi s ! size_sub (dim ta) 2 = None
                           then (psi s)[size_sub (dim ta) 2 := Some [1]] else psi s\<rparr>, 1) = Inr sr"
    and res: "na = fst ?al" "s' = fst sr"
    by (auto simp: dmrg_sweep_rl_def Let_def bindE_eq_Inr nth_err_eq_Inr)
  have na: "fst ?al = length (trains s)" by (simp add: function_train_alloc_def)
  note al = sweep_alloc [OF h1 tn h2]
  note loop' = loop [unfolded na]
  have "na = length (trains s)" using res na by simp
  then show ?thesis using al loop' res(2) p0 by blast
qed

text \<open>What a left-right sweep changes.\<close>

lemma dmrg_sweep_lr_frame:
  assumes run: "dmrg_sweep_lr ops a b epsilon s = Inr (na, s')"
    and ta: "train_at (trains s) a = Inr ta" and d: "2 \<le> dim ta"
  shows "na = length (trains s) \<and> length (trains s') = Suc (length (trains s)) \<and>
         (\<forall>q<length (trains s). trains s' ! q = trains s ! q) \<and>
         psi s' = psi s \<and> length (phi s') = length (phi s) \<and>
         phi s' ! 0 = (if phi s ! 0 = None then Some [1] else phi s ! 0) \<and>
         (\<forall>j. dim ta - 2 < j \<longrightarrow> phi s' ! j = phi s ! j) \<and>
         (\<exists>tn. train_at (trains s') na = Inr tn \<and> dim tn = dim ta)"
proof -
  let ?n = "length (trains s)"
  let ?ph = "if phi s ! 0 = None then (phi s)[0 := Some [1]] else phi s"
  from dmrg_sweep_lr_Inr [OF run ta] obtain h2 sl where
    na: "na = ?n" and res: "s' = fst sl" and p0: "0 < length (phi s)"
    and al: "length h2 = Suc ?n" "\<forall>q<?n. h2 ! q = trains s ! q"
      "h2 ! ?n = Some \<lparr>dim = dim ta, ranks = (replicate (dim ta + 1) 0)[0 := 1, dim ta := 1],
             cores = replicate (dim ta) None\<rparr>"
    and loop: "foldE (lr_step ops a b ?n epsilon) [0..<size_sub (dim ta) 1]
                 (s\<lparr>trains := h2, phi := ?ph\<rparr>, 1) = Inr sl"
    by blast
  have a: "a < ?n" "trains s ! a = Some ta" using ta by (simp_all add: train_at_eq_Inr)
  let ?P = "\<lambda>t :: ('a, 'b) sweep_state \<times> nat.
         psi (fst t) = psi s \<and> length (trains (fst t)) = Suc ?n \<and>
         (\<forall>q<?n. trains (fst t) ! q = trains s ! q) \<and> length (phi (fst t)) = length (phi s) \<and>
         phi (fst t) ! 0 = ?ph ! 0 \<and> (\<forall>j. dim ta - 2 < j \<longrightarrow> phi (fst t) ! j = phi s ! j) \<and>
         (\<exists>tn. train_at (trains (fst t)) ?n = Inr tn \<and> dim tn = dim ta)"
  have "?P sl"
  proof (rule foldE_invariant [OF loop, where P = ?P])
    show "?P (s\<lparr>trains := h2, phi := ?ph\<rparr>, 1)" using al by (auto simp: train_at_eq_Inr)
  next
    fix k t t'
    assume k: "k \<in> set [0..<size_sub (dim ta) 1]" and P: "?P t"
      and step: "lr_step ops a b ?n epsilon k t = Inr t'"
    have "train_at (trains (fst t)) a = Inr ta" using P a by (simp add: train_at_eq_Inr)
    from lr_step_frame [OF step this]
    have f: "psi (fst t') = psi (fst t)" "same_but ?n (trains (fst t)) (trains (fst t'))"
      "length (phi (fst t')) = length (phi (fst t))"
      "\<forall>j. j \<noteq> k + 1 \<longrightarrow> phi (fst t') ! j = phi (fst t) ! j"
      "\<not> k < size_sub (dim ta) 2 \<longrightarrow> phi (fst t') = phi (fst t)"
      by simp_all
    have "phi (fst t') ! j = phi (fst t) ! j" if "dim ta - 2 < j" for j
    proof (cases "k < size_sub (dim ta) 2")
      case True
      then have "j \<noteq> k + 1" using that d by simp
      then show ?thesis using f(4) by simp
    next
      case False
      then show ?thesis using f(5) by simp
    qed
    moreover have "\<exists>tn. train_at (trains (fst t')) ?n = Inr tn \<and> dim tn = dim ta"
      using lr_step_dims [OF step] P unfolding dims_kept_def by fastforce
    ultimately show "?P t'" using P f by (auto simp: same_but_def)
  qed
  then show ?thesis using na res p0 by auto
qed

text \<open>What a right-left sweep changes.\<close>

lemma dmrg_sweep_rl_frame:
  assumes run: "dmrg_sweep_rl ops a b epsilon s = Inr (na, s')"
    and ta: "train_at (trains s) a = Inr ta" and d: "2 \<le> dim ta"
  shows "na = length (trains s) \<and> length (trains s') = Suc (length (trains s)) \<and>
         (\<forall>q<length (trains s). trains s' ! q = trains s ! q) \<and>
         phi s' = phi s \<and> length (psi s') = length (psi s) \<and>
         psi s' ! (dim ta - 2) =
           (if psi s ! (dim ta - 2) = None then Some [1] else psi s ! (dim ta - 2)) \<and>
         (\<forall>j. dim ta - 2 < j \<longrightarrow> psi s' ! j = psi s ! j) \<and>
         (\<exists>tn. train_at (trains s') na = Inr tn \<and> dim tn = dim ta)"
proof -
  let ?n = "length (trains s)"
  let ?e = "dim ta - 2"
  let ?ps = "if psi s ! ?e = None then (psi s)[?e := Some [1]] else psi s"
  have s2: "size_sub (dim ta) 2 = ?e" using d by simp
  from dmrg_sweep_rl_Inr [OF run ta] obtain h2 sr where
    na: "na = ?n" and res: "s' = fst sr" and p0: "?e < length (psi s)"
    and al: "length h2 = Suc ?n" "\<forall>q<?n. h2 ! q = trains s ! q"
      "h2 ! ?n = Some \<lparr>dim = dim ta, ranks = (replicate (dim ta + 1) 0)[0 := 1, dim ta := 1],
             cores = replicate (dim ta) None\<rparr>"
    and loop: "foldE (rl_step ops a b ?n epsilon) (rev [0..<nat (int_of_size_t ?e + 1)])
                 (s\<lparr>trains := h2, psi := ?ps\<rparr>, 1) = Inr sr"
    unfolding s2 by blast
  let ?P = "\<lambda>t :: ('a, 'b) sweep_state \<times> nat.
         phi (fst t) = phi s \<and> length (trains (fst t)) = Suc ?n \<and>
         (\<forall>q<?n. trains (fst t) ! q = trains s ! q) \<and> length (psi (fst t)) = length (psi s) \<and>
         (\<forall>j. ?e \<le> j \<longrightarrow> psi (fst t) ! j = ?ps ! j) \<and>
         (\<exists>tn. train_at (trains (fst t)) ?n = Inr tn \<and> dim tn = dim ta)"
  have "?P sr"
  proof (rule foldE_invariant [OF loop, where P = ?P])
    show "?P (s\<lparr>trains := h2, psi := ?ps\<rparr>, 1)" using al by (auto simp: train_at_eq_Inr)
  next
    fix k t t'
    assume k: "k \<in> set (rev [0..<nat (int_of_size_t ?e + 1)])" and P: "?P t"
      and step: "rl_step ops a b ?n epsilon k t = Inr t'"
    have kle: "k \<le> ?e" using k int_of_size_t_le [of ?e] by auto
    from rl_step_frame [OF step]
    have f: "phi (fst t') = phi (fst t)" "same_but ?n (trains (fst t)) (trains (fst t'))"
      "length (psi (fst t')) = length (psi (fst t))"
      "\<forall>j. j \<noteq> k - 1 \<longrightarrow> psi (fst t') ! j = psi (fst t) ! j"
      "k = 0 \<longrightarrow> psi (fst t') = psi (fst t)"
      by simp_all
    have "psi (fst t') ! j = psi (fst t) ! j" if "?e \<le> j" for j
    proof (cases "k = 0")
      case True
      then show ?thesis using f(5) by simp
    next
      case False
      then have "j \<noteq> k - 1" using that kle by simp
      then show ?thesis using f(4) by simp
    qed
    moreover have "\<exists>tn. train_at (trains (fst t')) ?n = Inr tn \<and> dim tn = dim ta"
      using rl_step_dims [OF step] P unfolding dims_kept_def by fastforce
    ultimately show "?P t'" using P f by (auto simp: same_but_def)
  qed
  then show ?thesis using na res p0 by auto
qed

section \<open>The scaling loops and the writes to the new train\<close>

section \<open>The scaling loops\<close>

lemma scale_entry_Inr:
  assumes "scale_entry sv i j buf = Inr buf'"
  shows "i < length buf \<and> j < length sv \<and> buf' = buf[i := buf ! i * sv ! j]"
  using assms by (auto simp: scale_entry_def bindE_eq_Inr nth_err_eq_Inr upd_err_eq_Inr)

text \<open>Every pass of a loop that returns has returned.\<close>

lemma foldE_each:
  assumes "foldE body ks s = Inr s'" and "P s"
    and "\<And>k t t'. k \<in> set ks \<Longrightarrow> P t \<Longrightarrow> body k t = Inr t' \<Longrightarrow> P t'"
    and "k \<in> set ks"
  shows "\<exists>t t'. P t \<and> body k t = Inr t'"
  using assms
proof (induction ks arbitrary: s)
  case Nil
  then show ?case by simp
next
  case (Cons x xs)
  from Cons.prems(1) obtain t where t: "body x s = Inr t" "foldE body xs t = Inr s'"
    by (auto split: sum.splits)
  show ?case
  proof (cases "k = x")
    case True
    then show ?thesis using t(1) Cons.prems(2) by blast
  next
    case False
    then have k: "k \<in> set xs" using Cons.prems(4) by simp
    have Pt: "P t" using Cons.prems(2,3) t(1) by auto
    have pres: "\<And>k t t'. k \<in> set xs \<Longrightarrow> P t \<Longrightarrow> body k t = Inr t' \<Longrightarrow> P t'"
      using Cons.prems(3) by auto
    from Cons.IH [OF t(2) Pt pres k] show ?thesis .
  qed
qed

lemma scale_row_length:
  assumes "foldE (\<lambda>jj. scale_entry sv (f jj) jj) ks t = Inr t'"
  shows "length t' = length t"
  by (rule foldE_invariant [OF assms, where P = "\<lambda>u. length u = length t"])
     (auto dest!: scale_entry_Inr)

lemma scale_loops_in_range:
  assumes "foldE (\<lambda>kk. foldE (\<lambda>jj. scale_entry sv (kk * nr + jj) jj) [0..<nr]) [0..<n] buf = Inr buf'"
  shows "n * nr \<le> length buf"
proof (cases "n = 0 \<or> nr = 0")
  case True
  then show ?thesis by auto
next
  case False
  then have n: "n - 1 \<in> set [0..<n]" and r: "nr - 1 \<in> set [0..<nr]" by auto
  have "\<exists>t t'. length t = length buf \<and>
      foldE (\<lambda>jj. scale_entry sv ((n - 1) * nr + jj) jj) [0..<nr] t = Inr t'"
  proof (rule foldE_each [OF assms _ _ n])
    show "length buf = length buf" by simp
  next
    fix k t t'
    assume "length t = length buf"
      "foldE (\<lambda>jj. scale_entry sv (k * nr + jj) jj) [0..<nr] t = Inr t'"
    then show "length t' = length buf" using scale_row_length [of sv "\<lambda>jj. k * nr + jj"] by simp
  qed
  then obtain t t' where t: "length t = length buf"
    "foldE (\<lambda>jj. scale_entry sv ((n - 1) * nr + jj) jj) [0..<nr] t = Inr t'"
    by blast
  have "\<exists>u u'. length u = length t \<and>
      scale_entry sv ((n - 1) * nr + (nr - 1)) (nr - 1) u = Inr u'"
  proof (rule foldE_each [OF t(2) _ _ r])
    show "length t = length t" by simp
  next
    fix k u u'
    assume a: "length u = length t" "scale_entry sv ((n - 1) * nr + k) k u = Inr u'"
    from scale_entry_Inr [OF a(2)] a(1) show "length u' = length t" by simp
  qed
  then obtain u u' where u: "length u = length t"
    "scale_entry sv ((n - 1) * nr + (nr - 1)) (nr - 1) u = Inr u'"
    by blast
  from scale_entry_Inr [OF u(2)] u(1) t(1) have "(n - 1) * nr + (nr - 1) < length buf" by simp
  moreover have "n * nr = (n - 1) * nr + nr" using False by (cases n) simp_all
  ultimately show ?thesis using False by simp
qed

text \<open>The scaling of the last step of the left-right sweep: the row \<open>jj\<close> of \<open>vt\<close>, a
  matrix of \<open>rank\<close> rows stored by columns, is multiplied by \<open>s[jj]\<close>.\<close>

lemma scale_vt_Inr:
  assumes "scale_vt dimtemp rank sv vt = Inr vt'"
  shows "length vt' = length vt \<and>
         (\<forall>kk<dimtemp. \<forall>jj<rank. vt' ! (kk * rank + jj) = vt ! (kk * rank + jj) * sv ! jj)"
proof -
  have run: "foldE (\<lambda>kk. foldE (\<lambda>jj. scale_entry sv (kk * rank + jj) jj) [0..<rank])
               [0..<dimtemp] vt = Inr vt'"
    using assms by (simp add: scale_vt_def)
  have "length vt' = length vt \<and>
         (\<forall>kk<dimtemp. \<forall>jj<rank. vt' ! (kk * rank + jj) =
             (\<lambda>kk jj x. x * sv ! jj) kk jj (vt ! (kk * rank + jj))) \<and>
         (\<forall>i. dimtemp * rank \<le> i \<longrightarrow> vt' ! i = vt ! i)"
  proof (rule foldE_fill [OF run _ scale_loops_in_range [OF run]])
    fix kk jj t t'
    assume "scale_entry sv (kk * rank + jj) jj t = Inr t'"
    from scale_entry_Inr [OF this]
    show "t' = t[kk * rank + jj := t ! (kk * rank + jj) * sv ! jj]" by simp
  qed
  then show ?thesis by simp
qed

lemma set_rank_at:
  assumes "set_rank h p k r = Inr h'" "train_at h p = Inr t"
  shows "train_at h' p = Inr (t\<lparr>ranks := (ranks t)[k := r]\<rparr>)"
  using assms by (auto dest!: set_rank_Inr simp: train_at_eq_Inr)

lemma set_core_at:
  assumes "set_core h p k c = Inr h'" "train_at h p = Inr t"
  shows "train_at h' p = Inr (t\<lparr>cores := (cores t)[k := Some c]\<rparr>)"
  using assms by (auto dest!: set_core_Inr simp: train_at_eq_Inr)

section \<open>Runs of the model\<close>

lemma psi_run: "dmrg_update_all_right ops0 [Some target1, Some target1] 0 1 [None, None]
    = Inr [Some [1, 0, 0, 1], Some [1]]"
  by code_simp

lemma bad_psi_run: "dmrg_update_all_right ops0 [Some target2, Some guess1] 0 1 [None, None]
    = Inr [Some [1, 0], Some [1]]"
  by code_simp

lemma lr_run: "dmrg_sweep_lr ops0 1 0 0 state0 = Inr (2, state1)"
  by code_simp

lemma rl_run: "dmrg_sweep_rl ops0 2 0 0 state1 = Inr (3, state2)"
  by code_simp


lemma last_step_run: "lr_step ops0 1 0 2 0 1 (mid_state, 2) = Inr (state1, 2)"
  by code_simp

lemma length_fold_update: "length (fold (\<lambda>j b. b[f j := v]) xs buf) = length buf"
  by (induction xs arbitrary: buf) simp_all

lemma fills_buffer_ops0: "fills_buffer ops0"
  by (simp add: fills_buffer_def ops0_def householder0_def Let_def length_fold_update)

section \<open>Claim C3: the initialisation of the right accumulators\<close>





section \<open>Claim C10: three dimensions are needed\<close>

text \<open>A train of two dimensions, for the boundary case.\<close>

lemma train_at_two:
  "train_at [Some \<lparr>dim = 2, ranks = [1, 2, 1], cores = cs\<rparr>, Some target1] 0 =
     Inr \<lparr>dim = 2, ranks = [1, 2, 1], cores = cs\<rparr>"
  by (simp add: train_at_def)

text \<open>
  Claim C10.  \<open>dim \<ge> 3\<close> is a necessary precondition of \<open>dmrg_update_all_right\<close>, run
  on an array of \<open>dim - 1\<close> accumulators as \<open>dmrg_approx\<close> allocates it: from three
  dimensions on no access to the array is outside it, and with two dimensions the
  counter of the loop, a \<open>size_t\<close> initialised to \<open>dim - 3\<close>, wraps around to \<open>2^64 - 1\<close>
  and the first pass of the loop accesses that slot.
\<close>

theorem psi_initialisation_needs_three_dimensions:
  fixes mats :: "'a::{monoid_add,times,one} list option list"
  assumes "train_at h a = Inr ta" "length mats = dim ta - 1"
  shows "(3 \<le> dim ta \<longrightarrow> (\<forall>i. dmrg_update_all_right ops h a b mats \<noteq> Inl (AccumulatorIndex i))) \<and>
         (dim ta = 2 \<longrightarrow>
            dmrg_update_all_right ops h a b mats = Inl (AccumulatorIndex (2 ^ 64 - 1)))"
proof (intro conjI impI allI)
  fix i assume "3 \<le> dim ta"
  from dmrg_update_all_right_in_range [OF assms(1) this assms(2)]
  show "dmrg_update_all_right ops h a b mats \<noteq> Inl (AccumulatorIndex i)" .
next
  assume d: "dim ta = 2"
  then have "length mats = 1" using assms(2) by simp
  from dmrg_update_all_right_dim2 [OF assms(1) d this]
  show "dmrg_update_all_right ops h a b mats = Inl (AccumulatorIndex (2 ^ 64 - 1))" .
qed

theorem psi_initialisation_needs_three_dimensions_witness:
  "dmrg_update_all_right ops0 [Some target1, Some target1] 0 1 [None, None]
     \<noteq> Inl (AccumulatorIndex 0) \<and>
   dmrg_update_all_right ops0
     [Some \<lparr>dim = 2, ranks = [1, 2, 1],
            cores = [Some \<lparr>nrows = 1, ncols = 2, funcs = [p0, p1]\<rparr>,
                     Some \<lparr>nrows = 2, ncols = 1, funcs = [p0, p1]\<rparr>]\<rparr>, Some target1]
     0 1 [None] = Inl (AccumulatorIndex (2 ^ 64 - 1))"
proof -
  have t: "train_at [Some target1, Some target1] 0 = Inr target1"
    by (simp add: train_at_def)
  have l: "length [None, None :: real list option] = dim target1 - 1"
    by (simp add: target1_def)
  have three: "3 \<le> dim target1" by (simp add: target1_def)
  have a: "dmrg_update_all_right ops0 [Some target1, Some target1] 0 1 [None, None]
     \<noteq> Inl (AccumulatorIndex 0)"
    using psi_initialisation_needs_three_dimensions [OF t l, of ops0 1] three by blast
  have l2: "length [None :: real list option] =
      dim \<lparr>dim = 2, ranks = [1, 2, 1],
            cores = [Some \<lparr>nrows = 1, ncols = 2, funcs = [p0, p1]\<rparr>,
                     Some \<lparr>nrows = 2, ncols = 1, funcs = [p0, p1]\<rparr>]\<rparr> - 1"
    by simp
  have b: "dmrg_update_all_right ops0
     [Some \<lparr>dim = 2, ranks = [1, 2, 1],
            cores = [Some \<lparr>nrows = 1, ncols = 2, funcs = [p0, p1]\<rparr>,
                     Some \<lparr>nrows = 2, ncols = 1, funcs = [p0, p1]\<rparr>]\<rparr>, Some target1]
     0 1 [None] = Inl (AccumulatorIndex (2 ^ 64 - 1))"
    using psi_initialisation_needs_three_dimensions [OF train_at_two l2, of ops0 1] by simp
  show ?thesis using a b by simp
qed

section \<open>Claim C8: what the sweeps write\<close>

text \<open>
  Claim C8.  A left-right sweep that returns has written only accumulators of \<open>phi\<close>:
  every \<open>psi[k]\<close> is as before, \<open>phi[0]\<close> is as before unless it was \<open>NULL\<close> (then it is
  the boundary \<open>[1]\<close>), and no \<open>phi[j]\<close> with \<open>j > dim - 2\<close> is touched, so the writes are to
  \<open>phi[1], \<dots>, phi[dim-2]\<close>.  A right-left sweep has written only accumulators of \<open>psi\<close>:
  every \<open>phi[k]\<close> is as before, \<open>psi[dim-2]\<close> is as before unless it was \<open>NULL\<close>, and no
  \<open>psi[j]\<close> with \<open>j > dim - 2\<close> is touched, so the writes are to \<open>psi[0], \<dots>, psi[dim-3]\<close>.
\<close>

theorem sweep_accumulator_frame:
  assumes "train_at (trains s) a = Inr ta" "2 \<le> dim ta"
  shows "(dmrg_sweep_lr ops a b epsilon s = Inr (na, s') \<longrightarrow>
            psi s' = psi s \<and> length (phi s') = length (phi s) \<and>
            phi s' ! 0 = (if phi s ! 0 = None then Some [1] else phi s ! 0) \<and>
            (\<forall>j. dim ta - 2 < j \<longrightarrow> phi s' ! j = phi s ! j)) \<and>
         (dmrg_sweep_rl ops a b epsilon s = Inr (na, s') \<longrightarrow>
            phi s' = phi s \<and> length (psi s') = length (psi s) \<and>
            psi s' ! (dim ta - 2) =
              (if psi s ! (dim ta - 2) = None then Some [1] else psi s ! (dim ta - 2)) \<and>
            (\<forall>j. dim ta - 2 < j \<longrightarrow> psi s' ! j = psi s ! j))"
  using dmrg_sweep_lr_frame [OF _ assms, of ops b epsilon na s']
    dmrg_sweep_rl_frame [OF _ assms, of ops b epsilon na s']
  by blast

theorem sweep_accumulator_frame_witness:
  "dmrg_sweep_lr ops0 1 0 0 state0 = Inr (2, state1) \<and>
   psi state1 = psi state0 \<and> phi state1 ! 0 = Some [1] \<and> phi state0 ! 0 = None \<and>
   dmrg_sweep_rl ops0 2 0 0 state1 = Inr (3, state2) \<and>
   phi state2 = phi state1 \<and> psi state2 ! 1 = psi state1 ! 1"
proof -
  have t0: "train_at (trains state0) 1 = Inr target1"
    by (simp add: state0_def train_at_def)
  have t1: "train_at (trains state1) 2 = Inr target1"
    by (simp add: state1_def train_at_def)
  have d: "2 \<le> dim target1" "dim target1 - 2 = 1" by (simp_all add: target1_def)
  have p: "phi state0 ! 0 = None" "psi state1 ! 1 \<noteq> None"
    by (simp_all add: state0_def state1_def)
  from sweep_accumulator_frame [OF t0 d(1), of ops0 0 0 2 state1] lr_run p(1)
  have "psi state1 = psi state0 \<and> phi state1 ! 0 = Some [1]" by simp
  moreover from sweep_accumulator_frame [OF t1 d(1), of ops0 0 0 3 state2] rl_run p(2) d(2)
  have "phi state2 = phi state1 \<and> psi state2 ! 1 = psi state1 ! 1" by simp
  ultimately show ?thesis using lr_run rl_run p(1) by simp
qed


section \<open>Claim C9: the sweeps and the guess\<close>




section \<open>Claim C2: one pass of the left-right sweep\<close>

text \<open>
  Claim C2.  One pass of the loop of the left-right sweep, at counter \<open>k\<close>, for a guess of
  at least two dimensions and a factorisation that fills its buffer: the target's core
  \<open>k\<close> is multiplied from the left by \<open>Phi[k]\<close> and factored by Householder QR, which gives
  \<open>R\<close>; the target's core \<open>k+1\<close> is multiplied from the right by \<open>Psi[k]\<close> and factored by
  Householder LQ, which gives \<open>L\<close>; both are buffers of \<open>dimtemp * dimtemp\<close> doubles, where
  \<open>dimtemp\<close> is the number of columns of the target's core \<open>k\<close>, and their product is taken
  as one of matrices of that size; the rank at cut \<open>k+1\<close> of the new train is the rank of
  the truncated SVD of the product at \<open>epsilon\<close>; the core \<open>k\<close> of the new train is the left
  orthogonal block times \<open>U\<close>; and the core \<open>k+1\<close> is written at the last step, \<open>k = dim-2\<close>,
  only, as \<open>V^T\<close> with its row \<open>jj\<close> scaled by \<open>s[jj]\<close>, times the right orthogonal block.
\<close>

theorem lr_step_algorithm:
  fixes s :: "('a::{zero,one,plus,times}, 'f) sweep_state"
  assumes step: "lr_step ops a b na epsilon k (s, lsize) = Inr (s', lsize')"
    and ta: "train_at (trains s) a = Inr ta" "2 \<le> dim ta"
    and tn: "train_at (trains s) na = Inr tn"
    and buf: "fills_buffer ops"
  shows "\<exists>Phi Psi bk bk1 rsize.
      k < length (phi s) \<and> phi s ! k = Some Phi \<and> k < length (psi s) \<and> psi s ! k = Some Psi \<and>
      core_at (trains s) b k = Inr bk \<and> core_at (trains s) b (k + 1) = Inr bk1 \<and>
      (if k = dim ta - 2 then rsize = 1
       else \<exists>c. core_at (trains s) a (k + 1) = Inr c \<and> rsize = ncols c) \<and>
      (let dimtemp = ncols bk; zeros = replicate (dimtemp * dimtemp) 0;
           qr = qmarray_householder_simple ops ''QR'' (mqma ops Phi bk lsize) zeros;
           lq = qmarray_householder_simple ops ''LQ'' (qmam ops bk1 Psi rsize) zeros;
           R = snd qr; L = snd lq;
           svd = truncated_svd ops dimtemp dimtemp dimtemp
                   (cblas_dgemm ops dimtemp dimtemp dimtemp 1 R dimtemp L dimtemp 0 zeros dimtemp)
                   epsilon;
           rank = fst svd; U = fst (snd svd); S = fst (snd (snd svd)); Vt = snd (snd (snd svd))
       in length R = dimtemp * dimtemp \<and> length L = dimtemp * dimtemp \<and>
          (\<exists>tn'. train_at (trains s') na = Inr tn' \<and> ranks tn' = (ranks tn)[k + 1 := rank] \<and>
             (if k = dim ta - 2
              then \<exists>SVt. length SVt = length Vt \<and>
                     (\<forall>kk<dimtemp. \<forall>jj<rank.
                        SVt ! (kk * rank + jj) = Vt ! (kk * rank + jj) * S ! jj) \<and>
                     cores tn' = (cores tn)[k := Some (qmam ops (fst qr) U rank),
                                            k + 1 := Some (mqma ops SVt (fst lq) rank)]
              else cores tn' = (cores tn)[k := Some (qmam ops (fst qr) U rank)])))"
proof -
  have s1: "size_sub (dim ta) 1 = dim ta - 1" and s2: "size_sub (dim ta) 2 = dim ta - 2"
    using ta(2) by simp_all
  have last: "k + 1 = dim ta - 1 \<longleftrightarrow> k = dim ta - 2" using ta(2) by auto
  from lr_step_Inr [OF step]
  obtain ta' bk rsize bk1 pp Psi pq Phi h1 h2 h3 ph acore where
    ta': "train_at (trains s) a = Inr ta'"
    and bk: "core_at (trains s) b k = Inr bk"
    and rsize0: "(if k = size_sub (dim ta') 2 then Inr 1
      else bindE (core_at (trains s) a (k + 1)) (\<lambda>c. Inr (ncols c))) = Inr rsize"
    and bk1: "core_at (trains s) b (k + 1) = Inr bk1"
    and Psi: "nth_err AccumulatorIndex (psi s) k = Inr pp" "deref pp = Inr Psi"
    and Phi: "nth_err AccumulatorIndex (phi s) k = Inr pq" "deref pq = Inr Phi"
    and h1: "set_rank (trains s) na (k + 1)
       (split_rank (two_core_split ops epsilon Phi Psi bk bk1 lsize rsize)) = Inr h1"
    and h2: "set_core h1 na k
       (qmam ops (split_tempr (two_core_split ops epsilon Phi Psi bk bk1 lsize rsize))
          (split_u (two_core_split ops epsilon Phi Psi bk bk1 lsize rsize))
          (split_rank (two_core_split ops epsilon Phi Psi bk bk1 lsize rsize))) = Inr h2"
    and h30: "(if k + 1 = size_sub (dim ta') 1
      then bindE (scale_vt (ncols bk)
                   (split_rank (two_core_split ops epsilon Phi Psi bk bk1 lsize rsize))
                   (split_s (two_core_split ops epsilon Phi Psi bk bk1 lsize rsize))
                   (split_vt (two_core_split ops epsilon Phi Psi bk bk1 lsize rsize)))
             (\<lambda>vt'. set_core h2 na (k + 1)
                (mqma ops vt' (split_templ (two_core_split ops epsilon Phi Psi bk bk1 lsize rsize))
                   (split_rank (two_core_split ops epsilon Phi Psi bk bk1 lsize rsize))))
      else Inr h2) = Inr h3"
    and acore: "core_at h3 a k = Inr acore"
    and s': "(s', lsize') = (s\<lparr>trains := h3, phi := ph\<rparr>, ncols acore)"
    by (elim exE conjE) (rule that, assumption+)
  have eq: "ta' = ta" using ta' ta(1) by simp
  note rsize = rsize0 [unfolded eq]
  note h3 = h30 [unfolded eq]
  let ?sp = "two_core_split ops epsilon Phi Psi bk bk1 lsize rsize"
  let ?t1 = "tn\<lparr>ranks := (ranks tn)[k + 1 := split_rank ?sp]\<rparr>"
  let ?c = "qmam ops (split_tempr ?sp) (split_u ?sp) (split_rank ?sp)"
  let ?t2 = "?t1\<lparr>cores := (cores ?t1)[k := Some ?c]\<rparr>"
  have t1: "train_at h1 na = Inr ?t1" by (rule set_rank_at [OF h1 tn])
  have t2: "train_at h2 na = Inr ?t2" by (rule set_core_at [OF h2 t1])
  have acc: "k < length (phi s)" "phi s ! k = Some Phi" "k < length (psi s)" "psi s ! k = Some Psi"
    using Psi Phi by (auto simp: nth_err_eq_Inr deref_eq_Inr)
  have rs: "if k = dim ta - 2 then rsize = 1
       else \<exists>c. core_at (trains s) a (k + 1) = Inr c \<and> rsize = ncols c"
    using rsize unfolding s2 by (auto simp: bindE_eq_Inr split: if_splits)
  have tr: "trains s' = h3" using s' by simp
  have fin: "\<exists>tn'. train_at (trains s') na = Inr tn' \<and> ranks tn' = (ranks tn)[k + 1 := split_rank ?sp] \<and>
             (if k = dim ta - 2
              then \<exists>SVt. length SVt = length (split_vt ?sp) \<and>
                     (\<forall>kk<ncols bk. \<forall>jj<split_rank ?sp.
                        SVt ! (kk * split_rank ?sp + jj) =
                        split_vt ?sp ! (kk * split_rank ?sp + jj) * split_s ?sp ! jj) \<and>
                     cores tn' = (cores tn)[k := Some ?c,
                        k + 1 := Some (mqma ops SVt (split_templ ?sp) (split_rank ?sp))]
              else cores tn' = (cores tn)[k := Some ?c])"
  proof (cases "k = dim ta - 2")
    case True
    with h3 obtain vt' where
      vt': "scale_vt (ncols bk) (split_rank ?sp) (split_s ?sp) (split_vt ?sp) = Inr vt'"
      and h3': "set_core h2 na (k + 1) (mqma ops vt' (split_templ ?sp) (split_rank ?sp)) = Inr h3"
      unfolding s1 last by (auto simp: bindE_eq_Inr)
    from set_core_at [OF h3' t2] tr
    have "train_at (trains s') na =
        Inr (?t2\<lparr>cores := (cores ?t2)[k + 1 := Some (mqma ops vt' (split_templ ?sp) (split_rank ?sp))]\<rparr>)"
      by simp
    then show ?thesis using True scale_vt_Inr [OF vt'] by auto
  next
    case False
    with h3 have "h3 = h2" unfolding s1 last by simp
    then show ?thesis using False t2 tr by auto
  qed
  have len: "length (snd (qmarray_householder_simple ops dir A (replicate n 0))) = n"
    for dir A n
    using buf by (simp add: fills_buffer_def)
  note fin' = fin [unfolded two_core_split_def Let_def split.select_convs]
  show ?thesis
    unfolding Let_def
    apply (rule exI [where x = Phi], rule exI [where x = Psi], rule exI [where x = bk],
        rule exI [where x = bk1], rule exI [where x = rsize])
    apply (intro conjI)
             apply (rule acc(1))
            apply (rule acc(2))
           apply (rule acc(3))
          apply (rule acc(4))
         apply (rule bk)
        apply (rule bk1)
       apply (rule rs)
      apply (rule len)
     apply (rule len)
    apply (rule fin')
    done
qed

theorem lr_step_algorithm_witness:
  "fills_buffer ops0 \<and>
   lr_step ops0 1 0 2 0 1 (mid_state, 2) = Inr (state1, 2) \<and>
   train_at (trains mid_state) 1 = Inr target1 \<and> 2 \<le> dim target1 \<and>
   train_at (trains mid_state) 2 = Inr mid_train \<and>
   (\<exists>Phi Psi bk bk1 rsize.
      1 < length (phi mid_state) \<and> phi mid_state ! 1 = Some Phi \<and>
      1 < length (psi mid_state) \<and> psi mid_state ! 1 = Some Psi \<and>
      core_at (trains mid_state) 0 1 = Inr bk \<and> core_at (trains mid_state) 0 (1 + 1) = Inr bk1 \<and>
      (if 1 = dim target1 - 2 then rsize = 1
       else \<exists>c. core_at (trains mid_state) 1 (1 + 1) = Inr c \<and> rsize = ncols c) \<and>
      (let dimtemp = ncols bk; zeros = replicate (dimtemp * dimtemp) 0;
           qr = qmarray_householder_simple ops0 ''QR'' (mqma ops0 Phi bk 2) zeros;
           lq = qmarray_householder_simple ops0 ''LQ'' (qmam ops0 bk1 Psi rsize) zeros;
           R = snd qr; L = snd lq;
           svd = truncated_svd ops0 dimtemp dimtemp dimtemp
                   (cblas_dgemm ops0 dimtemp dimtemp dimtemp 1 R dimtemp L dimtemp 0 zeros dimtemp)
                   0;
           rank = fst svd; U = fst (snd svd); S = fst (snd (snd svd)); Vt = snd (snd (snd svd))
       in length R = dimtemp * dimtemp \<and> length L = dimtemp * dimtemp \<and>
          (\<exists>tn'. train_at (trains state1) 2 = Inr tn' \<and>
             ranks tn' = (ranks mid_train)[1 + 1 := rank] \<and>
             (if 1 = dim target1 - 2
              then \<exists>SVt. length SVt = length Vt \<and>
                     (\<forall>kk<dimtemp. \<forall>jj<rank.
                        SVt ! (kk * rank + jj) = Vt ! (kk * rank + jj) * S ! jj) \<and>
                     cores tn' = (cores mid_train)[1 := Some (qmam ops0 (fst qr) U rank),
                                            1 + 1 := Some (mqma ops0 SVt (fst lq) rank)]
              else cores tn' = (cores mid_train)[1 := Some (qmam ops0 (fst qr) U rank)]))))"
proof -
  have ta: "train_at (trains mid_state) 1 = Inr target1"
    by (simp add: mid_state_def train_at_def)
  have tn: "train_at (trains mid_state) 2 = Inr mid_train"
    by (simp add: mid_state_def train_at_def)
  have d: "2 \<le> dim target1" by (simp add: target1_def)
  note c = lr_step_algorithm [OF last_step_run ta d tn fills_buffer_ops0]
  show ?thesis
    apply (intro conjI)
         apply (rule fills_buffer_ops0)
        apply (rule last_step_run)
       apply (rule ta)
      apply (rule d)
     apply (rule tn)
    apply (rule c)
    done
qed

end
